theory Spec2Isabelle
  imports Complex_Main "HOL-Library.Multiset"
begin

section \<open>Tensors, errors and floating-point results\<close>

text \<open>
  The Python exceptions the modelled functions can raise: a failed \<^verbatim>\<open>assert\<close>, an index out
  of range, the lookup of a name that is not bound, the errors PyTorch, NumPy and SciPy raise on
  ill-shaped or ill-valued arguments, and a failed tuple unpacking.
\<close>

datatype error = AssertionError | IndexError | NameError | RuntimeError | ValueError

text \<open>
  A tensor is its shape and its elements, read by multi-index. Elements at multi-indices outside
  the shape are never read by a well-formed operation and carry no meaning. Floating-point
  numbers are modelled as exact reals, integer tensors hold unbounded integers.
\<close>

record 'a tensor =
  shape :: "nat list"
  elem :: "nat list \<Rightarrow> 'a"

text \<open>All multi-indices of a shape, in row-major order (the order of a contiguous tensor).\<close>

fun indices :: "nat list \<Rightarrow> nat list list" where
  "indices [] = [[]]"
| "indices (n # ns) = concat (map (\<lambda>i. map ((#) i) (indices ns)) [0..<n])"

declare indices.simps [simp del]

text \<open>
  A floating-point result that may be non-finite: \<open>NaN\<close> stands for IEEE NaN and for the two
  infinities, which is what a division by zero produces. Arithmetic on it is absorbing, a
  comparison with it is false, as for an IEEE NaN. (IEEE makes a finite value divided by an
  infinity zero; here it is \<open>NaN\<close>. So a result \<open>Fin x\<close> of the model is the finite result \<open>x\<close> of
  the code, and a result \<open>NaN\<close> says that a non-finite value took part.)
\<close>

datatype fl = Fin real | NaN

fun fdiv :: "real \<Rightarrow> real \<Rightarrow> fl" where
  "fdiv x y = (if y = 0 then NaN else Fin (x / y))"

fun fl_map :: "(real \<Rightarrow> real) \<Rightarrow> fl \<Rightarrow> fl" where
  "fl_map f (Fin x) = Fin (f x)"
| "fl_map f NaN = NaN"

fun fl_map2 :: "(real \<Rightarrow> real \<Rightarrow> real) \<Rightarrow> fl \<Rightarrow> fl \<Rightarrow> fl" where
  "fl_map2 f (Fin x) (Fin y) = Fin (f x y)"
| "fl_map2 f _ _ = NaN"

instantiation fl :: "{comm_monoid_add, times, uminus, minus}"
begin

definition zero_fl :: fl where "zero_fl = Fin 0"

definition plus_fl :: "fl \<Rightarrow> fl \<Rightarrow> fl" where "plus_fl = fl_map2 (+)"

definition times_fl :: "fl \<Rightarrow> fl \<Rightarrow> fl" where "times_fl = fl_map2 (*)"

definition minus_fl :: "fl \<Rightarrow> fl \<Rightarrow> fl" where "minus_fl = fl_map2 (-)"

definition uminus_fl :: "fl \<Rightarrow> fl" where "uminus_fl = fl_map uminus"

instance
proof
  fix a b c :: fl
  show "a + b + c = a + (b + c)"
    by (cases a; cases b; cases c) (simp_all add: plus_fl_def)
  show "a + b = b + a"
    by (cases a; cases b) (simp_all add: plus_fl_def)
  show "0 + a = a"
    by (cases a) (simp_all add: plus_fl_def zero_fl_def)
qed

end

text \<open>
  A dimension argument: PyTorch and Python list indexing both count a negative dimension from
  the end and reject one outside \<open>[-r, r)\<close>.
\<close>

definition wrap_dim :: "nat \<Rightarrow> int \<Rightarrow> error + nat" where
  "wrap_dim r d =
     (if - int r \<le> d \<and> d < int r then Inr (nat (if d < 0 then d + int r else d))
      else Inl IndexError)"

text \<open>\<^verbatim>\<open>torch.full(out_size, fill)\<close>: a negative size is refused.\<close>

definition full :: "int list \<Rightarrow> 'a \<Rightarrow> error + 'a tensor" where
  "full out_size fill =
     (if list_all (\<lambda>n. 0 \<le> n) out_size
      then Inr \<lparr>shape = map nat out_size, elem = \<lambda>_. fill\<rparr>
      else Inl RuntimeError)"

text \<open>\<^verbatim>\<open>t.max()\<close> over all elements: raises on a tensor without elements.\<close>

definition tensor_max :: "'a::linorder tensor \<Rightarrow> error + 'a" where
  "tensor_max t =
     (case map (elem t) (indices (shape t)) of
        [] \<Rightarrow> Inl RuntimeError
      | v # vs \<Rightarrow> Inr (fold max vs v))"

text \<open>
  \<^verbatim>\<open>out.scatter_add_(dim, idx, src)\<close>, PyTorch's documented loop
  \<^verbatim>\<open>out[i][j][idx[i][j][k]] += src[i][j][k]\<close> (for \<^verbatim>\<open>dim = 2\<close>) over every multi-index of
  \<^verbatim>\<open>idx\<close>. An index tensor without elements leaves \<^verbatim>\<open>out\<close> as it is. Otherwise the three
  tensors have the same rank, \<^verbatim>\<open>idx\<close> is no larger than \<^verbatim>\<open>src\<close> in any dimension and no larger
  than \<^verbatim>\<open>out\<close> in any dimension but \<^verbatim>\<open>dim\<close>, and every index is in \<open>[0, out.size(dim))\<close>.
\<close>

definition scatter_add_inplace ::
  "'a::comm_monoid_add tensor \<Rightarrow> int \<Rightarrow> int tensor \<Rightarrow> 'a tensor \<Rightarrow> error + 'a tensor" where
  "scatter_add_inplace out dm idx src =
     (case wrap_dim (length (shape out)) dm of
        Inl e \<Rightarrow> Inl e
      | Inr d \<Rightarrow>
          if indices (shape idx) = [] then Inr out
          else if length (shape idx) \<noteq> length (shape out) \<or> length (shape src) \<noteq> length (shape out)
            then Inl RuntimeError
          else if \<not> list_all (\<lambda>k. shape idx ! k \<le> shape src ! k \<and> (k = d \<or> shape idx ! k \<le> shape out ! k))
                     [0..<length (shape out)]
            then Inl RuntimeError
          else if \<not> list_all (\<lambda>i. 0 \<le> elem idx i \<and> elem idx i < int (shape out ! d)) (indices (shape idx))
            then Inl RuntimeError
          else Inr (out\<lparr>elem :=
                 fold (\<lambda>i f. f(i[d := nat (elem idx i)] := f (i[d := nat (elem idx i)]) + elem src i))
                   (indices (shape idx)) (elem out)\<rparr>))"

text \<open>
  \<^verbatim>\<open>torch.gather(inp, dim, idx)\<close>: the result has the shape of \<^verbatim>\<open>idx\<close> and reads
  \<^verbatim>\<open>inp[i][j][idx[i][j][k]]\<close> (for \<^verbatim>\<open>dim = 2\<close>).
\<close>

definition gather :: "'a tensor \<Rightarrow> int \<Rightarrow> int tensor \<Rightarrow> error + 'a tensor" where
  "gather inp dm idx =
     (case wrap_dim (length (shape inp)) dm of
        Inl e \<Rightarrow> Inl e
      | Inr d \<Rightarrow>
          if length (shape idx) \<noteq> length (shape inp) then Inl RuntimeError
          else if \<not> list_all (\<lambda>k. k = d \<or> shape idx ! k \<le> shape inp ! k) [0..<length (shape inp)]
            then Inl RuntimeError
          else if \<not> list_all (\<lambda>i. 0 \<le> elem idx i \<and> elem idx i < int (shape inp ! d)) (indices (shape idx))
            then Inl RuntimeError
          else Inr \<lparr>shape = shape idx, elem = \<lambda>i. elem inp (i[d := nat (elem idx i)])\<rparr>)"

section \<open>operations.py: ScatterAdd and scatter_add\<close>

text \<open>What \<^verbatim>\<open>ScatterAdd.forward\<close> keeps on \<^verbatim>\<open>ctx\<close> for the backward pass.\<close>

record scatter_ctx =
  saved_idx :: "int tensor"
  ctx_dim :: int

definition ScatterAdd_forward ::
  "'a::comm_monoid_add tensor \<Rightarrow> int tensor \<Rightarrow> int \<Rightarrow> int list \<Rightarrow> 'a \<Rightarrow> error + scatter_ctx \<times> 'a tensor" where
  "ScatterAdd_forward src idx dm out_size fill =
     (case full out_size fill of
        Inl e \<Rightarrow> Inl e
      | Inr out0 \<Rightarrow>
          (case scatter_add_inplace out0 dm idx src of
             Inl e \<Rightarrow> Inl e
           | Inr out \<Rightarrow> Inr (\<lparr>saved_idx = idx, ctx_dim = dm\<rparr>, out)))"

text \<open>
  \<^verbatim>\<open>ScatterAdd.backward\<close> returns one gradient per forward argument: the gather of the output
  gradient for \<^verbatim>\<open>src\<close>, and \<^verbatim>\<open>None\<close> for \<^verbatim>\<open>idx\<close>, \<^verbatim>\<open>dim\<close>, \<^verbatim>\<open>out_size\<close> and \<^verbatim>\<open>fill\<close>.
\<close>

definition ScatterAdd_backward ::
  "scatter_ctx \<Rightarrow> 'a tensor \<Rightarrow>
     error + 'a tensor \<times> unit option \<times> unit option \<times> unit option \<times> unit option" where
  "ScatterAdd_backward ctx ograd =
     (case gather ograd (ctx_dim ctx) (saved_idx ctx) of
        Inl e \<Rightarrow> Inl e
      | Inr grad \<Rightarrow> Inr (grad, None, None, None, None))"

text \<open>
  \<^verbatim>\<open>scatter_add(src, idx, dim, out_size=None, fill=0.0)\<close>. Without \<^verbatim>\<open>out_size\<close> the output
  takes the sizes of \<^verbatim>\<open>src\<close>, with \<^verbatim>\<open>idx.max().item()+1\<close> at \<^verbatim>\<open>dim\<close> (a Python list
  assignment, so \<^verbatim>\<open>dim\<close> is wrapped against the rank of \<^verbatim>\<open>src\<close>).
\<close>

definition scatter_add ::
  "'a::comm_monoid_add tensor \<Rightarrow> int tensor \<Rightarrow> int \<Rightarrow> int list option \<Rightarrow> 'a \<Rightarrow> error + 'a tensor" where
  "scatter_add src idx dm out_size fill =
     (case out_size of
        Some sz \<Rightarrow> map_sum id snd (ScatterAdd_forward src idx dm sz fill)
      | None \<Rightarrow>
          (case tensor_max idx of
             Inl e \<Rightarrow> Inl e
           | Inr m \<Rightarrow>
               (case wrap_dim (length (shape src)) dm of
                  Inl e \<Rightarrow> Inl e
                | Inr d \<Rightarrow>
                    map_sum id snd
                      (ScatterAdd_forward src idx dm ((map int (shape src))[d := m + 1]) fill))))"

section \<open>operations.py: GatherFunction\<close>

text \<open>\<^verbatim>\<open>idx.to(dtype=torch.int32)\<close>: a 64-bit index is reduced to 32 bits, two's complement.\<close>

definition to_int32 :: "int \<Rightarrow> int" where
  "to_int32 v = (v + 2 ^ 31) mod 2 ^ 32 - 2 ^ 31"

text \<open>
  \<^verbatim>\<open>torch.empty\<close> allocates without initialising: the contents are whatever \<open>junk\<close> the
  memory held. \<^verbatim>\<open>torch.zeros\<close> fills with zero.
\<close>

definition empty_tensor :: "nat list \<Rightarrow> (nat list \<Rightarrow> 'a) \<Rightarrow> 'a tensor" where
  "empty_tensor sz junk = \<lparr>shape = sz, elem = junk\<rparr>"

definition zeros :: "nat list \<Rightarrow> 'a::zero tensor" where
  "zeros sz = \<lparr>shape = sz, elem = \<lambda>_. 0\<rparr>"

definition ones :: "nat list \<Rightarrow> 'a::one tensor" where
  "ones sz = \<lparr>shape = sz, elem = \<lambda>_. 1\<rparr>"

text \<open>
  Modelled from the spec: the native kernel \<^verbatim>\<open>sampling.gather_forward\<close> of the compiled
  extension \<^verbatim>\<open>_ext\<close>, which is not among the Python sources. The spec: gather ``selects, for
  each batch and output position, the feature column at the given index'', with the interface
  \<^verbatim>\<open>(B,C,N,npoint, features, idx) -> output\<close>. The kernel writes every position of \<^verbatim>\<open>output\<close>
  and does not check the indices.
\<close>

definition gather_forward ::
  "nat \<Rightarrow> nat \<Rightarrow> nat \<Rightarrow> nat \<Rightarrow> 'a tensor \<Rightarrow> int tensor \<Rightarrow> 'a tensor \<Rightarrow> 'a tensor" where
  "gather_forward B C N npoint features idx output =
     output\<lparr>elem :=
       fold (\<lambda>p f. f(p := elem features [p ! 0, p ! 1, nat (elem idx [p ! 0, p ! 2])]))
         (indices [B, C, npoint]) (elem output)\<rparr>"

text \<open>
  Modelled from the spec: the native kernel \<^verbatim>\<open>sampling.gather_backward\<close>, also of \<^verbatim>\<open>_ext\<close>.
  The spec: the ``gradient w.r.t. features is a scatter-add of the incoming M-length gradient
  back to the N positions named by idx (accumulating when an index repeats)''. The kernel adds
  into the \<^verbatim>\<open>grad_features\<close> it is given.
\<close>

definition gather_backward ::
  "nat \<Rightarrow> nat \<Rightarrow> nat \<Rightarrow> nat \<Rightarrow> 'a::comm_monoid_add tensor \<Rightarrow> int tensor \<Rightarrow> 'a tensor \<Rightarrow> 'a tensor" where
  "gather_backward B C N npoint grad_out idx grad_features =
     grad_features\<lparr>elem :=
       fold (\<lambda>p f. f([p ! 0, p ! 1, nat (elem idx [p ! 0, p ! 2])] :=
                     f [p ! 0, p ! 1, nat (elem idx [p ! 0, p ! 2])] + elem grad_out p))
         (indices [B, C, npoint]) (elem grad_features)\<rparr>"

text \<open>What \<^verbatim>\<open>GatherFunction.forward\<close> keeps on \<^verbatim>\<open>ctx\<close>.\<close>

record gather_ctx =
  gather_saved_idx :: "int tensor"
  ctx_C :: nat
  ctx_N :: nat

text \<open>
  \<^verbatim>\<open>GatherFunction.forward(ctx, features, idx)\<close>. The two unpackings
  \<^verbatim>\<open>B, npoint = idx.size()\<close> and \<^verbatim>\<open>_, C, N = features.size()\<close> raise unless \<^verbatim>\<open>idx\<close> has rank
  two and \<^verbatim>\<open>features\<close> rank three.
\<close>

definition GatherFunction_forward ::
  "(nat list \<Rightarrow> 'a) \<Rightarrow> 'a tensor \<Rightarrow> int tensor \<Rightarrow> error + gather_ctx \<times> 'a tensor" where
  "GatherFunction_forward junk features idx0 =
     (let idx = idx0\<lparr>elem := \<lambda>i. to_int32 (elem idx0 i)\<rparr> in
      case shape idx of
        [B, npoint] \<Rightarrow>
          (case shape features of
             [B', C, N] \<Rightarrow>
               Inr (\<lparr>gather_saved_idx = idx, ctx_C = C, ctx_N = N\<rparr>,
                    gather_forward B C N npoint features idx (empty_tensor [B, C, npoint] junk))
           | _ \<Rightarrow> Inl ValueError)
      | _ \<Rightarrow> Inl ValueError)"

text \<open>
  \<^verbatim>\<open>GatherFunction.backward(ctx, grad_out)\<close> returns the gradient for \<^verbatim>\<open>features\<close> and
  \<^verbatim>\<open>None\<close> for \<^verbatim>\<open>idx\<close>.
\<close>

definition GatherFunction_backward ::
  "gather_ctx \<Rightarrow> 'a::comm_monoid_add tensor \<Rightarrow> error + 'a tensor \<times> unit option" where
  "GatherFunction_backward ctx grad_out =
     (case shape (gather_saved_idx ctx) of
        [B, npoint] \<Rightarrow>
          Inr (gather_backward B (ctx_C ctx) (ctx_N ctx) npoint grad_out (gather_saved_idx ctx)
                 (zeros [B, ctx_C ctx, ctx_N ctx]), None)
      | _ \<Rightarrow> Inl ValueError)"

text \<open>
  The pairing \<^verbatim>\<open>torch.sum(a * b)\<close> of two tensors of one shape, in which adjointness is stated,
  and \<^verbatim>\<open>idx.unsqueeze(1).expand(-1, C, -1)\<close>, the index of a \<open>(B, M)\<close> index tensor repeated
  over \<open>C\<close> channels.
\<close>

definition tensor_dot :: "real tensor \<Rightarrow> real tensor \<Rightarrow> real" where
  "tensor_dot a b = (\<Sum>i\<leftarrow>indices (shape a). elem a i * elem b i)"

definition expand_channels :: "int tensor \<Rightarrow> nat \<Rightarrow> int tensor" where
  "expand_channels idx C =
     \<lparr>shape = [shape idx ! 0, C, shape idx ! 1], elem = \<lambda>p. elem idx [p ! 0, p ! 2]\<rparr>"

section \<open>geo_operations.py: normalize_point_batch\<close>

text \<open>
  Elementwise operations and reductions of PyTorch. A binary operation broadcasts: the shorter
  shape is padded with ones on the left, two sizes are compatible when they are equal or one of
  them is one, and a dimension of size one is read at index 0.
\<close>

definition tensor_map :: "('a \<Rightarrow> 'b) \<Rightarrow> 'a tensor \<Rightarrow> 'b tensor" where
  "tensor_map f t = \<lparr>shape = shape t, elem = \<lambda>i. f (elem t i)\<rparr>"

definition align :: "nat \<Rightarrow> nat list \<Rightarrow> nat list" where
  "align r sh = replicate (r - length sh) 1 @ sh"

definition bidx :: "nat list \<Rightarrow> nat list \<Rightarrow> nat list" where
  "bidx sh i = map2 (\<lambda>n k. if n = 1 then 0 else k) sh (drop (length i - length sh) i)"

definition broadcast2 :: "('a \<Rightarrow> 'b \<Rightarrow> 'c) \<Rightarrow> 'a tensor \<Rightarrow> 'b tensor \<Rightarrow> error + 'c tensor" where
  "broadcast2 f a b =
     (let r = max (length (shape a)) (length (shape b));
          sa = align r (shape a);
          sb = align r (shape b)
      in if list_all2 (\<lambda>x y. x = y \<or> x = 1 \<or> y = 1) sa sb
         then Inr \<lparr>shape = map2 (\<lambda>x y. if x = 1 then y else x) sa sb,
                   elem = \<lambda>i. f (elem a (bidx (shape a) i)) (elem b (bidx (shape b) i))\<rparr>
         else Inl RuntimeError)"

text \<open>\<^verbatim>\<open>torch.sum(t, dim=d, keepdim=True)\<close>.\<close>

definition sum_keepdim :: "real tensor \<Rightarrow> nat \<Rightarrow> real tensor" where
  "sum_keepdim t d =
     \<lparr>shape = (shape t)[d := 1], elem = \<lambda>i. \<Sum>k\<leftarrow>[0..<shape t ! d]. elem t (i[d := k])\<rparr>"

text \<open>
  \<^verbatim>\<open>torch.mean(t, dim=d, keepdim=True)\<close> and \<^verbatim>\<open>torch.max(t, dim=d, keepdim=True)[0]\<close> over a
  dimension that is not empty. (Over an empty dimension the mean is NaN and the maximum raises;
  the caller below tests for it.)
\<close>

definition mean_keepdim :: "real tensor \<Rightarrow> nat \<Rightarrow> real tensor" where
  "mean_keepdim t d =
     \<lparr>shape = (shape t)[d := 1],
      elem = \<lambda>i. (\<Sum>k\<leftarrow>[0..<shape t ! d]. elem t (i[d := k])) / real (shape t ! d)\<rparr>"

definition max_keepdim :: "real tensor \<Rightarrow> nat \<Rightarrow> real tensor" where
  "max_keepdim t d =
     \<lparr>shape = (shape t)[d := 1],
      elem = \<lambda>i. fold max (map (\<lambda>k. elem t (i[d := k])) [1..<shape t ! d]) (elem t (i[d := 0]))\<rparr>"

text \<open>
  \<^verbatim>\<open>normalize_point_batch(pc, NCHW)\<close>. A tensor of rank below three has no axis 2, and
  \<^verbatim>\<open>torch.max\<close> raises on a point axis of size zero. The division produces NaN where the
  furthest distance of a cloud is zero.
\<close>

definition normalize_point_batch ::
  "real tensor \<Rightarrow> bool \<Rightarrow> error + fl tensor \<times> real tensor \<times> real tensor" where
  "normalize_point_batch pc NCHW =
     (let point_axis = (if NCHW then 2 else 1);
          dim_axis = (if NCHW then 1 else 2)
      in if length (shape pc) < 3 then Inl IndexError
         else if shape pc ! point_axis = 0 then Inl RuntimeError
         else
           let centroid = mean_keepdim pc point_axis in
           (case broadcast2 (-) pc centroid of
             Inl e \<Rightarrow> Inl e
           | Inr pc1 \<Rightarrow>
               let furthest_distance =
                     max_keepdim (tensor_map sqrt (sum_keepdim (tensor_map (\<lambda>x. x\<^sup>2) pc1) dim_axis))
                       point_axis
               in (case broadcast2 fdiv pc1 furthest_distance of
                     Inl e \<Rightarrow> Inl e
                   | Inr pc2 \<Rightarrow> Inr (pc2, centroid, furthest_distance))))"

text \<open>The round trip of the claim: \<^verbatim>\<open>pc_normalized * furthest_distance + centroid\<close>.\<close>

definition denormalize :: "fl tensor \<Rightarrow> real tensor \<Rightarrow> real tensor \<Rightarrow> error + fl tensor" where
  "denormalize pc_normalized centroid furthest_distance =
     (case broadcast2 (*) pc_normalized (tensor_map Fin furthest_distance) of
        Inl e \<Rightarrow> Inl e
      | Inr scaled \<Rightarrow> broadcast2 (+) scaled (tensor_map Fin centroid))"

section \<open>geo_operations.py: cotangent and CotLaplacian\<close>

text \<open>
  \<^verbatim>\<open>torch.sqrt(((a - b)**2).sum(2))\<close> at the face \<open>p = [b, f]\<close>: the distance of two of the
  gathered vertices, over the three gathered coordinates.
\<close>

definition edge_length :: "real tensor \<Rightarrow> real tensor \<Rightarrow> nat list \<Rightarrow> real" where
  "edge_length a b p = sqrt (\<Sum>j\<leftarrow>[0..<3]. (elem a (p @ [j]) - elem b (p @ [j]))\<^sup>2)"

text \<open>
  The part of \<^verbatim>\<open>cotangent\<close> after the edge lengths \<open>l1\<close>, \<open>l2\<close>, \<open>l3\<close> of one face: the
  semiperimeter, \<^verbatim>\<open>A\<close> (twice Heron's area), the three numerators and the stacked result
  \<^verbatim>\<open>[cot23, cot31, cot12] / A / 4\<close>. The division by \<^verbatim>\<open>A\<close> is not guarded.
\<close>

definition cot_face :: "real \<Rightarrow> real \<Rightarrow> real \<Rightarrow> fl list" where
  "cot_face l1 l2 l3 =
     (let sp = (l1 + l2 + l3) * 0.5;
          A = 2 * sqrt (sp * (sp - l1) * (sp - l2) * (sp - l3));
          cot23 = l2\<^sup>2 + l3\<^sup>2 - l1\<^sup>2;
          cot31 = l1\<^sup>2 + l3\<^sup>2 - l2\<^sup>2;
          cot12 = l1\<^sup>2 + l2\<^sup>2 - l3\<^sup>2
      in map (\<lambda>c. fl_map (\<lambda>x. x / 4) (fdiv c A)) [cot23, cot31, cot12])"

text \<open>
  \<^verbatim>\<open>cotangent(V, F)\<close>. The three \<^verbatim>\<open>torch.gather\<close> calls read the first, second and third
  vertex of every face (the index \<^verbatim>\<open>indices_repeat[:, :, :, k]\<close> repeats \<^verbatim>\<open>F[b, f, k]\<close> over
  three coordinates); they raise on a face index outside \<open>[0, N)\<close>. The result holds, for each
  face, the three values for the edges 23, 31 and 12.
\<close>

definition cotangent :: "real tensor \<Rightarrow> int tensor \<Rightarrow> error + fl tensor" where
  "cotangent V F =
     (if length (shape F) \<noteq> 3 then Inl RuntimeError
      else if shape F ! 2 < 3 then Inl IndexError
      else
        let idx = (\<lambda>k. \<lparr>shape = [shape F ! 0, shape F ! 1, 3], elem = \<lambda>p. elem F [p ! 0, p ! 1, k]\<rparr>)
        in (case gather V 1 (idx 0) of
             Inl e \<Rightarrow> Inl e
           | Inr v1 \<Rightarrow>
          (case gather V 1 (idx 1) of
             Inl e \<Rightarrow> Inl e
           | Inr v2 \<Rightarrow>
          (case gather V 1 (idx 2) of
             Inl e \<Rightarrow> Inl e
           | Inr v3 \<Rightarrow>
               Inr \<lparr>shape = [shape F ! 0, shape F ! 1, 3],
                     elem = \<lambda>p. cot_face (edge_length v2 v3 (take 2 p)) (edge_length v3 v1 (take 2 p))
                                 (edge_length v1 v2 (take 2 p)) ! (p ! 2)\<rparr>))))"

text \<open>
  SciPy sparse matrices, by their values: a matrix is a tensor of rank two. The constructor
  \<^verbatim>\<open>sparse.csr_matrix((data, (rows, cols)), shape=(n, n))\<close> sums the data given for one
  position and raises on a row or column outside the matrix.
\<close>

definition csr_matrix :: "fl list \<Rightarrow> int list \<Rightarrow> int list \<Rightarrow> nat \<Rightarrow> error + fl tensor" where
  "csr_matrix data rows cols n =
     (if length rows \<noteq> length data \<or> length cols \<noteq> length data then Inl ValueError
      else if \<not> list_all (\<lambda>r. 0 \<le> r \<and> r < int n) (rows @ cols) then Inl ValueError
      else Inr \<lparr>shape = [n, n],
                elem = \<lambda>p. \<Sum>(v, r, c)\<leftarrow>zip data (zip rows cols).
                              if r = int (p ! 0) \<and> c = int (p ! 1) then v else 0\<rparr>)"

text \<open>\<^verbatim>\<open>L + L.T\<close>, \<^verbatim>\<open>np.sum(L, 1)\<close>, \<^verbatim>\<open>sparse.diags(d)\<close> and \<^verbatim>\<open>L - M\<close> on square matrices.\<close>

definition add_transpose :: "fl tensor \<Rightarrow> fl tensor" where
  "add_transpose L = \<lparr>shape = shape L, elem = \<lambda>p. elem L [p ! 0, p ! 1] + elem L [p ! 1, p ! 0]\<rparr>"

definition row_sums :: "fl tensor \<Rightarrow> nat \<Rightarrow> fl" where
  "row_sums L i = (\<Sum>j\<leftarrow>[0..<shape L ! 1]. elem L [i, j])"

definition diags :: "nat \<Rightarrow> (nat \<Rightarrow> fl) \<Rightarrow> fl tensor" where
  "diags n d = \<lparr>shape = [n, n], elem = \<lambda>p. if p ! 0 = p ! 1 then d (p ! 0) else 0\<rparr>"

definition sparse_sub :: "fl tensor \<Rightarrow> fl tensor \<Rightarrow> fl tensor" where
  "sparse_sub L M = \<lparr>shape = shape L, elem = \<lambda>p. elem L p - elem M p\<rparr>"

text \<open>
  The global names a function of \<^verbatim>\<open>geo_operations.py\<close> looks up at run time, as far as
  \<^verbatim>\<open>computeLaplacian\<close> needs them: whether \<^verbatim>\<open>np\<close> and \<^verbatim>\<open>sparse\<close> are bound. The module imports
  \<^verbatim>\<open>torch\<close>, \<^verbatim>\<open>sampling\<close>, \<^verbatim>\<open>linalg\<close>, \<^verbatim>\<open>check_values\<close>, \<^verbatim>\<open>save_grad\<close>, \<^verbatim>\<open>saved_variables\<close>,
  \<^verbatim>\<open>batch_svd\<close>, \<^verbatim>\<open>normalize\<close>, \<^verbatim>\<open>dot_product\<close> and \<^verbatim>\<open>scatter_add\<close> and nothing else: neither
  \<^verbatim>\<open>numpy\<close> nor \<^verbatim>\<open>scipy.sparse\<close>.
\<close>

record py_globals =
  np_bound :: bool
  sparse_bound :: bool

definition geo_operations_globals :: py_globals where
  "geo_operations_globals = \<lparr>np_bound = False, sparse_bound = False\<rparr>"

text \<open>
  The statements of \<^verbatim>\<open>CotLaplacian.computeLaplacian(V, F)\<close> run with the global names \<open>g\<close>,
  returning the matrix they store in \<^verbatim>\<open>self.L\<close>. After \<^verbatim>\<open>cotangent\<close> the first statement that
  needs \<^verbatim>\<open>np\<close> is \<^verbatim>\<open>offset = np.arange(...)\<close>, the first that needs \<^verbatim>\<open>sparse\<close> is the call of
  \<^verbatim>\<open>sparse.csr_matrix\<close>; a name that is not bound raises \<^verbatim>\<open>NameError\<close>. The faces are taken
  batch by batch in row-major order (\<^verbatim>\<open>reshape(-1, 3)\<close>), with the indices of batch \<open>b\<close> offset
  by \<open>b * N\<close>; a face \<open>(a, b, c)\<close> gives its first value to the position \<open>(b, c)\<close>, the second
  to \<open>(c, a)\<close> and the third to \<open>(a, b)\<close>. NumPy and SciPy raise unless the faces are triangles
  and \<^verbatim>\<open>F\<close> has the batch size of \<^verbatim>\<open>V\<close>.
\<close>

definition computeLaplacian_in :: "py_globals \<Rightarrow> real tensor \<Rightarrow> int tensor \<Rightarrow> error + fl tensor" where
  "computeLaplacian_in g V F =
     (case shape V of
        [B, N, D] \<Rightarrow>
          (case cotangent V F of
             Inl e \<Rightarrow> Inl e
           | Inr C \<Rightarrow>
               if \<not> np_bound g then Inl NameError
               else if shape F \<noteq> [B, shape F ! 1, 3] then Inl ValueError
               else
                 let faces = indices [B, shape F ! 1];
                     vert = (\<lambda>p k. elem F (p @ [k]) + int (p ! 0) * int N);
                     batchC = concat (map (\<lambda>p. map (\<lambda>k. elem C (p @ [k])) [0, 1, 2]) faces);
                     rows = concat (map (\<lambda>p. map (vert p) [1, 2, 0]) faces);
                     cols = concat (map (\<lambda>p. map (vert p) [2, 0, 1]) faces);
                     BN = B * N
                 in if \<not> sparse_bound g then Inl NameError
                    else
                      (case csr_matrix batchC rows cols BN of
                         Inl e \<Rightarrow> Inl e
                       | Inr L0 \<Rightarrow>
                           let L = add_transpose L0;
                               M = diags BN (row_sums L)
                           in Inr (sparse_sub L M)))
      | _ \<Rightarrow> Inl ValueError)"

text \<open>\<^verbatim>\<open>CotLaplacian.computeLaplacian(V, F)\<close> in the module as it is.\<close>

definition computeLaplacian :: "real tensor \<Rightarrow> int tensor \<Rightarrow> error + fl tensor" where
  "computeLaplacian V F = computeLaplacian_in geo_operations_globals V F"

text \<open>
  \<^verbatim>\<open>_CotLaplacianBatchLx.forward(ctx, V, L)\<close>: the product of \<^verbatim>\<open>L\<close> with
  \<^verbatim>\<open>V.reshape(-1, 3)\<close>, whose row \<open>i\<close> and column \<open>c\<close> is the element \<open>3 * i + c\<close> of \<^verbatim>\<open>V\<close> in
  row-major order.
\<close>

fun unravel :: "nat list \<Rightarrow> nat \<Rightarrow> nat list" where
  "unravel [] k = []"
| "unravel (n # ns) k = (k div prod_list ns) mod n # unravel ns (k mod prod_list ns)"

definition cotLx :: "real tensor \<Rightarrow> fl tensor \<Rightarrow> fl tensor" where
  "cotLx V L =
     \<lparr>shape = [shape L ! 0, 3],
      elem = \<lambda>p. \<Sum>j\<leftarrow>[0..<shape L ! 1].
                 elem L [p ! 0, j] * Fin (elem V (unravel (shape V) (3 * j + p ! 1)))\<rparr>"

text \<open>
  \<^verbatim>\<open>CotLaplacian.forward(V, F=None)\<close> on the state \<^verbatim>\<open>self.L\<close>: the operator is assembled on
  the first call, which needs the faces, and reused afterwards.
\<close>

definition CotLaplacian_forward ::
  "fl tensor option \<Rightarrow> real tensor \<Rightarrow> int tensor option \<Rightarrow> error + fl tensor option \<times> fl tensor" where
  "CotLaplacian_forward self_L V F =
     (case self_L of
        Some L \<Rightarrow> Inr (Some L, cotLx V L)
      | None \<Rightarrow>
          (case F of
             None \<Rightarrow> Inl AssertionError
           | Some F' \<Rightarrow>
               (case computeLaplacian V F' of
                  Inl e \<Rightarrow> Inl e
                | Inr L \<Rightarrow> Inr (Some L, cotLx V L))))"

text \<open>
  The geometric reading of the claims: the interior angle of the triangle \<open>a b c\<close> at \<open>a\<close>, and
  the vertex \<open>k\<close> of the face \<open>f\<close> of batch \<open>b\<close> as a list of three coordinates.
\<close>

definition vec_dot :: "real list \<Rightarrow> real list \<Rightarrow> real" where
  "vec_dot u v = (\<Sum>j\<leftarrow>[0..<3]. u ! j * v ! j)"

definition vec_sub :: "real list \<Rightarrow> real list \<Rightarrow> real list" where
  "vec_sub u v = map (\<lambda>j. u ! j - v ! j) [0..<3]"

definition vertex_angle :: "real list \<Rightarrow> real list \<Rightarrow> real list \<Rightarrow> real" where
  "vertex_angle a b c =
     arccos (vec_dot (vec_sub b a) (vec_sub c a)
              / (sqrt (vec_dot (vec_sub b a) (vec_sub b a)) * sqrt (vec_dot (vec_sub c a) (vec_sub c a))))"

definition face_vertex :: "real tensor \<Rightarrow> int tensor \<Rightarrow> nat \<Rightarrow> nat \<Rightarrow> nat \<Rightarrow> real list" where
  "face_vertex V F b f k = map (\<lambda>j. elem V [b, nat (elem F [b, f, k]), j]) [0..<3]"

text \<open>The area of a triangle with the sides \<open>l1\<close>, \<open>l2\<close>, \<open>l3\<close> by Heron's formula.\<close>

definition heron_area :: "real \<Rightarrow> real \<Rightarrow> real \<Rightarrow> real" where
  "heron_area l1 l2 l3 =
     (let sp = (l1 + l2 + l3) / 2 in sqrt (sp * (sp - l1) * (sp - l2) * (sp - l3)))"

definition vec_dist :: "real list \<Rightarrow> real list \<Rightarrow> real" where
  "vec_dist u v = sqrt (vec_dot (vec_sub u v) (vec_sub u v))"

text \<open>
  Heron's area of the face \<open>f\<close> of batch \<open>b\<close>, and the three (value, row, column) triples the
  face \<open>p = [b, f]\<close> gives to the operator: the value for the edge 23 at the position of its
  second and third vertex, and so on, the vertices of batch \<open>b\<close> numbered from \<open>b * N\<close>.
\<close>

definition face_area :: "real tensor \<Rightarrow> int tensor \<Rightarrow> nat \<Rightarrow> nat \<Rightarrow> real" where
  "face_area V F b f =
     heron_area (vec_dist (face_vertex V F b f 1) (face_vertex V F b f 2))
                (vec_dist (face_vertex V F b f 2) (face_vertex V F b f 0))
                (vec_dist (face_vertex V F b f 0) (face_vertex V F b f 1))"

definition edge_contributions :: "fl tensor \<Rightarrow> int tensor \<Rightarrow> nat \<Rightarrow> nat list \<Rightarrow> (fl \<times> int \<times> int) list" where
  "edge_contributions C F N p =
     (let vert = (\<lambda>k. elem F (p @ [k]) + int (p ! 0) * int N)
      in [(elem C (p @ [0]), vert 1, vert 2),
          (elem C (p @ [1]), vert 2, vert 0),
          (elem C (p @ [2]), vert 0, vert 1)])"

section \<open>geo_operations.py: mean_value_coordinates_3D\<close>

definition PI :: real where
  "PI = 31415927 / 10000000"

text \<open>
  The vector of three coordinates at a multi-index of the leading axes, its Euclidean norm
  (\<^verbatim>\<open>torch.norm(x, dim=-1, p=2)\<close>) and \<^verbatim>\<open>normalize\<close> of \<^verbatim>\<open>operations.py\<close>, which is
  \<^verbatim>\<open>torch.nn.functional.normalize(x, p=2, dim=-1, eps=1e-12)\<close>: the vector divided by the larger
  of its norm and \<^verbatim>\<open>eps\<close>.
\<close>

definition vec3 :: "real tensor \<Rightarrow> nat list \<Rightarrow> real list" where
  "vec3 t i = map (\<lambda>c. elem t (i @ [c])) [0..<3]"

definition vec_norm :: "real list \<Rightarrow> real" where
  "vec_norm u = sqrt (vec_dot u u)"

definition normalize_vec :: "real list \<Rightarrow> real list" where
  "normalize_vec u = map (\<lambda>x. x / max (vec_norm u) (1 / 10 ^ 12)) u"

text \<open>\<^verbatim>\<open>torch.det\<close> of a \<open>3 \<times> 3\<close> matrix given by its rows.\<close>

definition det3 :: "real list list \<Rightarrow> real" where
  "det3 u = u ! 0 ! 0 * (u ! 1 ! 1 * u ! 2 ! 2 - u ! 1 ! 2 * u ! 2 ! 1)
          - u ! 0 ! 1 * (u ! 1 ! 0 * u ! 2 ! 2 - u ! 1 ! 2 * u ! 2 ! 0)
          + u ! 0 ! 2 * (u ! 1 ! 0 * u ! 2 ! 1 - u ! 1 ! 1 * u ! 2 ! 0)"

text \<open>
  The two clamps \<^verbatim>\<open>torch.where(x >= c, x - (x.detach() - (c - eps)), x)\<close> and
  \<^verbatim>\<open>torch.where(x <= -c, x - (x.detach() + (c - eps)), x)\<close>; on a non-finite value the first
  gives NaN (a comparison with NaN is false, and \<open>\<infinity> - \<infinity>\<close> is NaN), and so does the second.
\<close>

definition clamp_hi :: "real \<Rightarrow> real \<Rightarrow> real \<Rightarrow> real" where
  "clamp_hi c eps x = (if x \<ge> c then x - (x - (c - eps)) else x)"

definition clamp_lo :: "real \<Rightarrow> real \<Rightarrow> real \<Rightarrow> real" where
  "clamp_lo c eps x = (if x \<le> - c then x - (x + (c - eps)) else x)"

text \<open>Division, square root and tests of values that may be non-finite: the square root of a
  negative number is NaN, a comparison with NaN is false.\<close>

fun fl_div :: "fl \<Rightarrow> fl \<Rightarrow> fl" where
  "fl_div (Fin x) (Fin y) = fdiv x y"
| "fl_div _ _ = NaN"

fun fl_sqrt :: "fl \<Rightarrow> fl" where
  "fl_sqrt (Fin x) = (if x < 0 then NaN else Fin (sqrt x))"
| "fl_sqrt NaN = NaN"

fun fl_test :: "(real \<Rightarrow> bool) \<Rightarrow> fl \<Rightarrow> bool" where
  "fl_test P (Fin x) = P x"
| "fl_test P NaN = False"

text \<open>\<^verbatim>\<open>t[:, :, :, perm]\<close> and \<^verbatim>\<open>t[:, :, :, perm, :]\<close>: the entries of axis 3 in the order
  \<open>perm\<close>.\<close>

definition take_idx :: "'a tensor \<Rightarrow> nat list \<Rightarrow> 'a tensor" where
  "take_idx t perm = \<lparr>shape = (shape t)[3 := length perm], elem = \<lambda>i. elem t (i[3 := perm ! (i ! 3)])\<rparr>"

text \<open>
  The variables of \<^verbatim>\<open>mean_value_coordinates_3D\<close>, each as a function of the ones it is computed
  from. \<open>dj\<close> (of shape \<open>(B, P, N, 1)\<close>) is the distance of the query point \<open>p\<close> and the vertex
  \<open>j\<close>, \<open>uj\<close> the normalized vector between them.
\<close>

definition mvc_dj :: "real tensor \<Rightarrow> real tensor \<Rightarrow> real tensor" where
  "mvc_dj query vertices =
     \<lparr>shape = [shape query ! 0, shape query ! 1, shape vertices ! 1, 1],
      elem = \<lambda>i. vec_norm (vec_sub (vec3 vertices [i ! 0, i ! 2]) (vec3 query [i ! 0, i ! 1]))\<rparr>"

definition mvc_uj :: "real tensor \<Rightarrow> real tensor \<Rightarrow> real tensor" where
  "mvc_uj query vertices =
     \<lparr>shape = [shape query ! 0, shape query ! 1, shape vertices ! 1, 3],
      elem = \<lambda>i. normalize_vec (vec_sub (vec3 vertices [i ! 0, i ! 2]) (vec3 query [i ! 0, i ! 1])) ! (i ! 3)\<rparr>"

text \<open>\<open>li\<close> from \<open>ui\<close> (of shape \<open>(B, P, F, 3, 3)\<close>), with its two clamps; \<open>theta_i\<close>, where the
  argument of \<^verbatim>\<open>torch.asin\<close> lies in \<open>[0, 1)\<close> after the clamps; \<open>h\<close> of shape \<open>(B, P, F, 1)\<close>.\<close>

definition mvc_li :: "real tensor \<Rightarrow> real tensor" where
  "mvc_li ui =
     (let li = \<lparr>shape = take 4 (shape ui),
                elem = \<lambda>i. vec_norm (vec_sub (vec3 (take_idx ui [1, 2, 0]) i) (vec3 (take_idx ui [2, 0, 1]) i))\<rparr>;
          eps = 2 / 10 ^ 5;
          li = tensor_map (clamp_hi 2 eps) li;
          li = tensor_map (clamp_lo 2 eps) li
      in li)"

definition mvc_theta_i :: "real tensor \<Rightarrow> real tensor" where
  "mvc_theta_i li = tensor_map (\<lambda>l. 2 * arcsin (l / 2)) li"

definition mvc_h :: "real tensor \<Rightarrow> real tensor" where
  "mvc_h theta_i = tensor_map (\<lambda>s. s / 2) (sum_keepdim theta_i 3)"

text \<open>\<open>ci\<close> with its two clamps, and \<open>si\<close>; the division in \<open>ci\<close> is not guarded.\<close>

definition mvc_ci :: "real tensor \<Rightarrow> real tensor \<Rightarrow> fl tensor" where
  "mvc_ci theta_i h =
     (let ci = \<lparr>shape = shape theta_i,
                elem = \<lambda>i. fdiv (2 * sin (elem h (i[3 := 0])) * sin (elem h (i[3 := 0]) - elem theta_i i))
                                 (sin (elem (take_idx theta_i [1, 2, 0]) i) * sin (elem (take_idx theta_i [2, 0, 1]) i))
                           - Fin 1\<rparr>;
          eps = 1 / 10 ^ 5;
          ci = tensor_map (fl_map (clamp_hi 1 eps)) ci;
          ci = tensor_map (fl_map (clamp_lo 1 eps)) ci
      in ci)"

definition mvc_si :: "real tensor \<Rightarrow> fl tensor \<Rightarrow> fl tensor" where
  "mvc_si ui ci =
     \<lparr>shape = shape ci,
      elem = \<lambda>i. Fin (sgn (det3 (map (\<lambda>k. vec3 ui [i ! 0, i ! 1, i ! 2, k]) [0..<3])))
                 * fl_sqrt (Fin 1 - elem ci i * elem ci i)\<rparr>"

text \<open>
  \<open>wi\<close>: the quotient, zeroed for a face with some \<open>|si| \<le> 1e-5\<close>, zeroed for every face of a
  query point that has a face with \<open>PI - h < 1e-4\<close>, and replaced on such a face by
  \<^verbatim>\<open>sin(theta_i) * di[[2,0,1]] * di[[1,2,0]]\<close>. The quotient is not guarded.
\<close>

definition mvc_wi :: "real tensor \<Rightarrow> real tensor \<Rightarrow> fl tensor \<Rightarrow> fl tensor \<Rightarrow> real tensor \<Rightarrow> fl tensor" where
  "mvc_wi theta_i h ci si di =
     (let wi = \<lparr>shape = shape theta_i,
                elem = \<lambda>i. fl_div (Fin (elem theta_i i)
                                    - elem (take_idx ci [1, 2, 0]) i * Fin (elem (take_idx theta_i [2, 0, 1]) i)
                                    - elem (take_idx ci [2, 0, 1]) i * Fin (elem (take_idx theta_i [1, 2, 0]) i))
                                   (Fin (elem di i) * Fin (sin (elem (take_idx theta_i [1, 2, 0]) i))
                                    * elem (take_idx si [2, 0, 1]) i)\<rparr>;
          wi = \<lparr>shape = shape wi,
                elem = \<lambda>i. if list_ex (\<lambda>k. fl_test (\<lambda>s. \<bar>s\<bar> \<le> 1 / 10 ^ 5) (elem si (i[3 := k]))) [0..<shape si ! 3]
                           then 0 else elem wi i\<rparr>;
          inside_triangle = \<lparr>shape = butlast (shape h), elem = \<lambda>i. PI - elem h (i @ [0]) < 1 / 10 ^ 4\<rparr>;
          wi = \<lparr>shape = shape wi,
                elem = \<lambda>i. if list_ex (\<lambda>f. elem inside_triangle [i ! 0, i ! 1, f]) [0..<shape inside_triangle ! 2]
                           then 0 else elem wi i\<rparr>;
          wi = \<lparr>shape = shape wi,
                elem = \<lambda>i. if elem inside_triangle [i ! 0, i ! 1, i ! 2]
                           then Fin (sin (elem theta_i i) * elem (take_idx di [2, 0, 1]) i * elem (take_idx di [1, 2, 0]) i)
                           else elem wi i\<rparr>
      in wi)"

text \<open>
  The face weights \<open>wi\<close> (with \<open>dj\<close>, which the rest needs): the first part of
  \<^verbatim>\<open>mean_value_coordinates_3D\<close>, up to the scatter. The shapes are those of the docstring,
  \<open>(B, P, 3)\<close>, \<open>(B, N, 3)\<close> and \<open>(B, F, 3)\<close>: the tuple unpacking raises on another rank, and for
  other sizes, which PyTorch rejects unless broadcasting applies, the model answers with
  \<^verbatim>\<open>RuntimeError\<close>. \<^verbatim>\<open>check_values\<close> of \<^verbatim>\<open>utils/pytorch_utils.py\<close> is a parameter.
\<close>

definition mvc_face_weights ::
    "(fl tensor \<Rightarrow> bool) \<Rightarrow> real tensor \<Rightarrow> real tensor \<Rightarrow> int tensor \<Rightarrow> error + real tensor \<times> fl tensor" where
  "mvc_face_weights check_values query vertices faces =
     (if length (shape faces) \<noteq> 3 \<or> length (shape query) \<noteq> 3 \<or> length (shape vertices) \<noteq> 3
      then Inl ValueError
      else
        let B = shape faces ! 0; F = shape faces ! 1; P = shape query ! 1; N = shape vertices ! 1 in
        if shape faces \<noteq> [B, F, 3] \<or> shape query \<noteq> [B, P, 3] \<or> shape vertices \<noteq> [B, N, 3]
        then Inl RuntimeError
        else
          let dj = mvc_dj query vertices;
              uj = mvc_uj query vertices
          in (case gather \<lparr>shape = [B, P, F, N, 3], elem = \<lambda>i. elem uj [i ! 0, i ! 1, i ! 3, i ! 4]\<rparr> 3
                     \<lparr>shape = [B, P, F, 3, 3], elem = \<lambda>i. elem faces [i ! 0, i ! 2, i ! 3]\<rparr> of
                Inl e \<Rightarrow> Inl e
              | Inr ui \<Rightarrow>
                  let li = mvc_li ui;
                      theta_i = mvc_theta_i li
                  in if \<not> check_values (tensor_map Fin theta_i) then Inl AssertionError
                     else
                       let h = mvc_h theta_i;
                           ci = mvc_ci theta_i h;
                           si = mvc_si ui ci
                       in if \<not> check_values si then Inl AssertionError
                          else
                            (case gather \<lparr>shape = [B, P, F, N], elem = \<lambda>i. elem dj [i ! 0, i ! 1, i ! 3, 0]\<rparr> 3
                                    \<lparr>shape = [B, P, F, 3], elem = \<lambda>i. elem faces [i ! 0, i ! 2, i ! 3]\<rparr> of
                               Inl e \<Rightarrow> Inl e
                             | Inr di \<Rightarrow>
                                 if \<not> check_values (tensor_map Fin di) then Inl AssertionError
                                 else Inr (dj, mvc_wi theta_i h ci si di))))"

text \<open>
  The last part, from \<^verbatim>\<open>close_to_point\<close> on: a row with a vertex closer than \<open>1e-8\<close> is zeroed and
  gets a one at every such vertex, a row sum of zero is replaced by one, and every row is
  divided by its sum.
\<close>

definition mvc_finish :: "real tensor \<Rightarrow> fl tensor \<Rightarrow> error + fl tensor" where
  "mvc_finish dj wj0 =
     (let close_to_point = \<lparr>shape = butlast (shape dj), elem = \<lambda>i. elem dj (i @ [0]) < 1 / 10 ^ 8\<rparr>;
          any_close = \<lparr>shape = (shape close_to_point)[2 := 1],
                       elem = \<lambda>i. list_ex (\<lambda>k. elem close_to_point (i[2 := k])) [0..<shape close_to_point ! 2]\<rparr>
      in (case broadcast2 (\<lambda>c w. if c then 0 else w) any_close wj0 of
            Inl e \<Rightarrow> Inl e
          | Inr wj1 \<Rightarrow>
              (case broadcast2 (\<lambda>c w. if c then Fin 1 else w) close_to_point wj1 of
                 Inl e \<Rightarrow> Inl e
               | Inr wj \<Rightarrow>
                   let sumWj = \<lparr>shape = (shape wj)[2 := 1],
                                 elem = \<lambda>i. \<Sum>k\<leftarrow>[0..<shape wj ! 2]. elem wj (i[2 := k])\<rparr>;
                       sumWj = tensor_map (\<lambda>s. if s = 0 then Fin 1 else s) sumWj
                   in broadcast2 fl_div wj sumWj)))"

text \<open>
  \<^verbatim>\<open>mean_value_coordinates_3D\<close>: the face weights, flattened to \<open>(B, P, 3 F)\<close>, are added up by
  vertex with \<^verbatim>\<open>scatter_add\<close>, whose output has as many columns as the largest face index plus
  one. (\<^verbatim>\<open>reshape(B, P, -1)\<close> raises on a tensor without elements when \<open>B P = 0\<close>, the maximum of
  the indices raises when there is no face: a \<^verbatim>\<open>RuntimeError\<close> in both cases.)
\<close>

definition mean_value_coordinates_3D ::
    "(fl tensor \<Rightarrow> bool) \<Rightarrow> real tensor \<Rightarrow> real tensor \<Rightarrow> int tensor \<Rightarrow> error + fl tensor" where
  "mean_value_coordinates_3D check_values query vertices faces =
     (case mvc_face_weights check_values query vertices faces of
        Inl e \<Rightarrow> Inl e
      | Inr (dj, wi) \<Rightarrow>
          let B = shape faces ! 0; F = shape faces ! 1; P = shape query ! 1 in
          (case scatter_add \<lparr>shape = [B, P, F * 3], elem = \<lambda>i. elem wi [i ! 0, i ! 1, i ! 2 div 3, i ! 2 mod 3]\<rparr>
                  \<lparr>shape = [B, P, F * 3], elem = \<lambda>i. elem faces [i ! 0, i ! 2 div 3, i ! 2 mod 3]\<rparr> 2 None 0 of
             Inl e \<Rightarrow> Inl e
           | Inr wj \<Rightarrow> mvc_finish dj wj))"

text \<open>
  The tensors \<open>ui\<close> and \<open>di\<close> that the two calls of \<^verbatim>\<open>torch.gather\<close> return when every face index
  is the number of a vertex.
\<close>

definition mvc_ui :: "real tensor \<Rightarrow> real tensor \<Rightarrow> int tensor \<Rightarrow> real tensor" where
  "mvc_ui query vertices faces =
     \<lparr>shape = [shape faces ! 0, shape query ! 1, shape faces ! 1, 3, 3],
      elem = \<lambda>i. elem (mvc_uj query vertices)
                    [i[3 := nat (elem faces [i ! 0, i ! 2, i ! 3])] ! 0, i[3 := nat (elem faces [i ! 0, i ! 2, i ! 3])] ! 1,
                     i[3 := nat (elem faces [i ! 0, i ! 2, i ! 3])] ! 3, i[3 := nat (elem faces [i ! 0, i ! 2, i ! 3])] ! 4]\<rparr>"

definition mvc_di :: "real tensor \<Rightarrow> real tensor \<Rightarrow> int tensor \<Rightarrow> real tensor" where
  "mvc_di query vertices faces =
     \<lparr>shape = [shape faces ! 0, shape query ! 1, shape faces ! 1, 3],
      elem = \<lambda>i. elem (mvc_dj query vertices)
                    [i[3 := nat (elem faces [i ! 0, i ! 2, i ! 3])] ! 0, i[3 := nat (elem faces [i ! 0, i ! 2, i ! 3])] ! 1,
                     i[3 := nat (elem faces [i ! 0, i ! 2, i ! 3])] ! 3, 0]\<rparr>"

text \<open>The face weights \<open>wi\<close> computed from these two.\<close>

definition mvc_wi_of :: "real tensor \<Rightarrow> real tensor \<Rightarrow> int tensor \<Rightarrow> fl tensor" where
  "mvc_wi_of query vertices faces =
     (let ui = mvc_ui query vertices faces;
          theta_i = mvc_theta_i (mvc_li ui);
          h = mvc_h theta_i;
          ci = mvc_ci theta_i h;
          si = mvc_si ui ci
      in mvc_wi theta_i h ci si (mvc_di query vertices faces))"

section \<open>operations.py: group_knn\<close>

text \<open>
  \<^verbatim>\<open>__batch_distance_matrix_general(A, B)\<close> for \<^verbatim>\<open>A\<close> of shape \<open>(B, N, C)\<close> and \<^verbatim>\<open>B\<close> of shape
  \<open>(B, M, C)\<close>: \<^verbatim>\<open>r_A - 2 * m + r_B.permute(0, 2, 1)\<close>. \<^verbatim>\<open>torch.matmul\<close> needs equal channel
  counts and broadcasts a batch of size one; \<^verbatim>\<open>permute(0, 2, 1)\<close> needs rank three.
\<close>

definition batch_distance_matrix_general :: "real tensor \<Rightarrow> real tensor \<Rightarrow> error + real tensor" where
  "batch_distance_matrix_general A B' =
     (case (shape A, shape B') of
        ([Ba, N, Ca], [Bb, M, Cb]) \<Rightarrow>
          if Ca \<noteq> Cb \<or> \<not> (Ba = Bb \<or> Ba = 1 \<or> Bb = 1) then Inl RuntimeError
          else
            let a = (\<lambda>b. if Ba = 1 then 0 else b);
                b' = (\<lambda>b. if Bb = 1 then 0 else b);
                r_A = (\<lambda>b i. \<Sum>c\<leftarrow>[0..<Ca]. elem A [a b, i, c] * elem A [a b, i, c]);
                r_B = (\<lambda>b j. \<Sum>c\<leftarrow>[0..<Ca]. elem B' [b' b, j, c] * elem B' [b' b, j, c]);
                m = (\<lambda>b i j. \<Sum>c\<leftarrow>[0..<Ca]. elem A [a b, i, c] * elem B' [b' b, j, c])
            in Inr \<lparr>shape = [if Ba = 1 then Bb else Ba, N, M],
                     elem = \<lambda>p. r_A (p ! 0) (p ! 1) - 2 * m (p ! 0) (p ! 1) (p ! 2) + r_B (p ! 0) (p ! 2)\<rparr>
      | _ \<Rightarrow> Inl RuntimeError)"

text \<open>\<^verbatim>\<open>t.transpose(2, 1)\<close> of a tensor of rank three.\<close>

definition transpose21 :: "'a tensor \<Rightarrow> 'a tensor" where
  "transpose21 t = \<lparr>shape = [shape t ! 0, shape t ! 2, shape t ! 1], elem = \<lambda>p. elem t [p ! 0, p ! 2, p ! 1]\<rparr>"

text \<open>
  \<^verbatim>\<open>np.unique(rows, return_index=True, axis=0)\<close>, of which only the indices are used: the
  index of the first occurrence of every distinct row (here in increasing order; the caller
  uses them as a set). Rows are compared by exact equality.
\<close>

definition first_occurrences :: "'a list \<Rightarrow> nat list" where
  "first_occurrences rows = filter (\<lambda>i. rows ! i \<notin> set (take i rows)) [0..<length rows]"

text \<open>The rows \<^verbatim>\<open>points_np[b]\<close> of a point set of shape \<open>(B, N, C)\<close>.\<close>

definition point_rows :: "real tensor \<Rightarrow> nat \<Rightarrow> real list list" where
  "point_rows pts b = map (\<lambda>n. map (\<lambda>c. elem pts [b, n, c]) [0..<shape pts ! 2]) [0..<shape pts ! 1]"

text \<open>
  \<^verbatim>\<open>torch.topk(x, k, dim=-1, sorted=True)\<close> is a parameter of \<^verbatim>\<open>group_knn\<close>: a function that
  takes the position \<open>[b, m]\<close> of a row, the row and \<open>k\<close>, and returns the values and the
  indices. PyTorch promises the \<open>k\<close> largest values (no value that is left out is larger than
  one that is returned) in descending order, with the indices at which the row holds them, and
  says nothing on the order among equal values. \<open>topk_contract\<close> is that promise.
\<close>

type_synonym topk_fun = "nat list \<Rightarrow> real list \<Rightarrow> nat \<Rightarrow> real list \<times> nat list"


text \<open>One function that keeps the promise, for the examples: among equal values it takes the
  lower index first.\<close>

definition topk_stable :: topk_fun where
  "topk_stable pos xs k =
     (let idx = take k (sort_key (\<lambda>i. - (xs ! i)) [0..<length xs])
      in (map (\<lambda>i. xs ! i) idx, idx))"

text \<open>A second one: among equal values it takes the higher index first.\<close>

definition topk_last :: topk_fun where
  "topk_last pos xs k =
     (let idx = take k (sort_key (\<lambda>i. - (xs ! i)) (rev [0..<length xs]))
      in (map (\<lambda>i. xs ! i) idx, idx))"

text \<open>
  \<^verbatim>\<open>group_knn(k, query, points, unique=True, NCHW=True)\<close> with \<^verbatim>\<open>torch.topk\<close> as \<open>topk\<close>, returning
  \<^verbatim>\<open>(knn_trans, point_indices, -distances)\<close>. The unpackings raise unless the points have rank
  three, the assertion unless \<open>k \<le> N\<close>; with \<^verbatim>\<open>unique\<close> every point that is not the first of its
  coordinates gets \<^verbatim>\<open>torch.max(D)\<close> added to its distances, and \<^verbatim>\<open>torch.max\<close> raises on a
  distance matrix without elements; \<^verbatim>\<open>torch.topk\<close> raises on a negative \<open>k\<close>, and the final
  \<^verbatim>\<open>torch.gather\<close> when the distance matrix has more batches than the points.
\<close>

definition group_knn ::
  "topk_fun \<Rightarrow> int \<Rightarrow> real tensor \<Rightarrow> real tensor \<Rightarrow> bool \<Rightarrow> bool
     \<Rightarrow> error + real tensor \<times> int tensor \<times> real tensor" where
  "group_knn topk k query points unique NCHW =
     (if length (shape points) \<noteq> 3 then Inl ValueError
      else if NCHW \<and> length (shape query) < 3 then Inl IndexError
      else
        let points_trans = (if NCHW then transpose21 points else points);
            query_trans = (if NCHW then transpose21 query else query);
            batch_size = shape points_trans ! 0;
            num_points = shape points_trans ! 1
        in if \<not> int num_points \<ge> k then Inl AssertionError
           else
             (case batch_distance_matrix_general query_trans points_trans of
                Inl e \<Rightarrow> Inl e
              | Inr D0 \<Rightarrow>
                  (case (if unique
                         then (case tensor_max D0 of
                                 Inl e \<Rightarrow> Inl e
                               | Inr mx \<Rightarrow>
                                   let indices_duplicated =
                                         (\<lambda>b n. if n \<in> set (first_occurrences (point_rows points_trans b))
                                                then 0 else 1)
                                   in Inr \<lparr>shape = shape D0,
                                            elem = \<lambda>p. elem D0 p
                                              + mx * indices_duplicated (if batch_size = 1 then 0 else p ! 0) (p ! 2)\<rparr>)
                         else Inr D0) of
                     Inl e \<Rightarrow> Inl e
                   | Inr D \<Rightarrow>
                       if k < 0 then Inl RuntimeError
                       else if batch_size < shape D ! 0 then Inl RuntimeError
                       else
                         let row = (\<lambda>b m. map (\<lambda>n. - elem D [b, m, n]) [0..<num_points]);
                             sz = [shape D ! 0, shape D ! 1, nat k];
                             distances = \<lparr>shape = sz,
                                           elem = \<lambda>p. fst (topk [p ! 0, p ! 1] (row (p ! 0) (p ! 1)) (nat k)) ! (p ! 2)\<rparr>;
                             point_indices = \<lparr>shape = sz,
                                               elem = \<lambda>p. int (snd (topk [p ! 0, p ! 1] (row (p ! 0) (p ! 1)) (nat k)) ! (p ! 2))\<rparr>;
                             knn_trans = \<lparr>shape = sz @ [shape points_trans ! 2],
                                           elem = \<lambda>p. elem points_trans
                                                    [p ! 0, nat (elem point_indices [p ! 0, p ! 1, p ! 2]), p ! 3]\<rparr>;
                             knn = (if NCHW
                                    then \<lparr>shape = [sz ! 0, shape points_trans ! 2, sz ! 1, sz ! 2],
                                           elem = \<lambda>p. elem knn_trans [p ! 0, p ! 2, p ! 3, p ! 1]\<rparr>
                                    else knn_trans)
                         in Inr (knn, point_indices, tensor_map uminus distances))))"

text \<open>The squared Euclidean distance of the query point \<open>m\<close> and the point \<open>n\<close> of batch \<open>b\<close>,
  both in the layout \<open>(B, points, C)\<close>.\<close>

definition sqr_distance :: "real tensor \<Rightarrow> real tensor \<Rightarrow> nat \<Rightarrow> nat \<Rightarrow> nat \<Rightarrow> real" where
  "sqr_distance q p b m n = (\<Sum>c\<leftarrow>[0..<shape p ! 2]. (elem q [b, m, c] - elem p [b, n, c])\<^sup>2)"

subsection \<open>Batched singular value decomposition\<close>

datatype device = CPU | CUDA

text \<open>What the process sees of the accelerator: a build of the library without CUDA support, a
  build with it but no usable device, or a usable device. \<^verbatim>\<open>torch.cuda.is_available()\<close> holds for
  the last one only.\<close>

datatype cuda_env = NotCompiled | NoDevice | Available

definition cuda_is_available :: "cuda_env \<Rightarrow> bool" where
  "cuda_is_available env = (env = Available)"

record 'a placed =
  payload :: "'a tensor"
  device :: device

text \<open>\<^verbatim>\<open>assert c\<close>.\<close>

definition py_assert :: "bool \<Rightarrow> error + unit" where
  "py_assert c = (if c then Inr () else Inl AssertionError)"

text \<open>The truth value of the class object \<^verbatim>\<open>RuntimeError\<close>: a class defines neither \<^verbatim>\<open>__bool__\<close>
  nor \<^verbatim>\<open>__len__\<close> for itself, so it is true.\<close>

definition bool_RuntimeError :: bool where
  "bool_RuntimeError = True"

text \<open>\<^verbatim>\<open>x.cuda()\<close>: the copy on the device, an \<^verbatim>\<open>AssertionError\<close> (``Torch not compiled with CUDA
  enabled'') of a build without CUDA, a \<^verbatim>\<open>RuntimeError\<close> when no device can be initialised.\<close>

definition cuda :: "cuda_env \<Rightarrow> 'a placed \<Rightarrow> error + 'a placed" where
  "cuda env x = (case env of
                   NotCompiled \<Rightarrow> Inl AssertionError
                 | NoDevice \<Rightarrow> Inl RuntimeError
                 | Available \<Rightarrow> Inr (x\<lparr>device := CUDA\<rparr>))"

text \<open>\<^verbatim>\<open>x.to(d)\<close>, and the slice \<^verbatim>\<open>U[:, :, :k]\<close> of a tensor with at least three axes.\<close>

definition to_device :: "'a placed \<Rightarrow> device \<Rightarrow> 'a placed" where
  "to_device x d = x\<lparr>device := d\<rparr>"

definition narrow_last :: "'a placed \<Rightarrow> nat \<Rightarrow> error + 'a placed" where
  "narrow_last U k = (if length (shape (payload U)) < 3 then Inl IndexError
                      else Inr (U\<lparr>payload := (payload U)\<lparr>shape := (shape (payload U))[2 := min k (shape (payload U) ! 2)]\<rparr>\<rparr>))"

record 'a svd_ctx =
  ctx_device :: device
  saved :: "('a placed \<times> 'a placed \<times> 'a placed \<times> 'a placed) option"

text \<open>\<^verbatim>\<open>BatchSVDFunction.forward\<close>. The compiled kernel \<^verbatim>\<open>linalg.batch_svd_forward\<close> is the parameter
  \<open>svd_kernel\<close>; it is called with the tensor on the device, \<^verbatim>\<open>True\<close>, the tolerance and the sweep
  count. The guard asserts the class \<^verbatim>\<open>RuntimeError\<close>, its message is the assertion message.\<close>

definition BatchSVDFunction_forward ::
    "cuda_env \<Rightarrow> ('a placed \<Rightarrow> bool \<Rightarrow> real \<Rightarrow> nat \<Rightarrow> error + 'a placed \<times> 'a placed \<times> 'a placed)
      \<Rightarrow> 'a placed \<Rightarrow> error + 'a svd_ctx \<times> 'a placed \<times> 'a placed \<times> 'a placed" where
  "BatchSVDFunction_forward env svd_kernel x0 =
     (let dev = device x0 in
      case (if \<not> cuda_is_available env then py_assert bool_RuntimeError else Inr ()) of
        Inl e \<Rightarrow> Inl e
      | Inr _ \<Rightarrow>
          (case cuda env x0 of
             Inl e \<Rightarrow> Inl e
           | Inr x \<Rightarrow>
               (case svd_kernel x True (1 / 10 ^ 7) 100 of
                  Inl e \<Rightarrow> Inl e
                | Inr (U0, S, V0) \<Rightarrow>
                    if length (shape (payload S)) < 2 then Inl IndexError
                    else
                      let k = shape (payload S) ! 1 in
                      (case narrow_last U0 k of
                         Inl e \<Rightarrow> Inl e
                       | Inr U \<Rightarrow>
                           (case narrow_last V0 k of
                              Inl e \<Rightarrow> Inl e
                            | Inr V \<Rightarrow>
                                Inr (\<lparr>ctx_device = dev, saved = Some (x, U, S, V)\<rparr>,
                                     to_device U dev, to_device S dev, to_device V dev))))))"

text \<open>\<^verbatim>\<open>batch_svd\<close>: the rank check, then the function above; the context stays with autograd.\<close>

definition batch_svd ::
    "cuda_env \<Rightarrow> ('a placed \<Rightarrow> bool \<Rightarrow> real \<Rightarrow> nat \<Rightarrow> error + 'a placed \<times> 'a placed \<times> 'a placed)
      \<Rightarrow> 'a placed \<Rightarrow> error + 'a placed \<times> 'a placed \<times> 'a placed" where
  "batch_svd env svd_kernel x =
     (case py_assert (length (shape (payload x)) = 3) of
        Inl e \<Rightarrow> Inl e
      | Inr _ \<Rightarrow> map_sum id snd (BatchSVDFunction_forward env svd_kernel x))"

section \<open>Concrete inputs\<close>

text \<open>
  One batch, one channel: the features \<open>[10, 20, 30]\<close>, the index \<open>[2, 0, 2]\<close> (position 2 is
  named twice, position 1 never) and the output gradient \<open>[1, 2, 3]\<close>.
\<close>

definition ex_features :: "real tensor" where
  "ex_features = \<lparr>shape = [1, 1, 3], elem = \<lambda>p. [10, 20, 30] ! (p ! 2)\<rparr>"

definition ex_idx :: "int tensor" where
  "ex_idx = \<lparr>shape = [1, 3], elem = \<lambda>p. [2, 0, 2] ! (p ! 1)\<rparr>"

definition ex_grad_out :: "real tensor" where
  "ex_grad_out = \<lparr>shape = [1, 1, 3], elem = \<lambda>p. [1, 2, 3] ! (p ! 2)\<rparr>"

definition ex_src :: "real tensor" where
  "ex_src = \<lparr>shape = [1, 3], elem = \<lambda>p. [5, 7, 11] ! (p ! 1)\<rparr>"

text \<open>A batch of one cloud that holds the single point \<open>(1, 2, 3)\<close>, and one of the two points
  \<open>(0, 0, 0)\<close> and \<open>(2, 0, 0)\<close>, both in the layout \<open>(B, N, 3)\<close>.\<close>

definition ex_single_point :: "real tensor" where
  "ex_single_point = \<lparr>shape = [1, 1, 3], elem = \<lambda>p. [1, 2, 3] ! (p ! 2)\<rparr>"

definition ex_two_points :: "real tensor" where
  "ex_two_points = \<lparr>shape = [1, 2, 3], elem = \<lambda>p. [[0, 0, 0], [2, 0, 0]] ! (p ! 1) ! (p ! 2)\<rparr>"

text \<open>
  A mesh of one triangle with the sides 3, 4 and 5, a mesh of one triangle whose three
  vertices lie on a line, and the constant vector field \<open>(1, 2, 3)\<close> on three vertices.
\<close>

definition ex_tri_V :: "real tensor" where
  "ex_tri_V = \<lparr>shape = [1, 3, 3], elem = \<lambda>p. [[0, 0, 0], [3, 0, 0], [0, 4, 0]] ! (p ! 1) ! (p ! 2)\<rparr>"

definition ex_tri_F :: "int tensor" where
  "ex_tri_F = \<lparr>shape = [1, 1, 3], elem = \<lambda>p. [0, 1, 2] ! (p ! 2)\<rparr>"

definition ex_flat_V :: "real tensor" where
  "ex_flat_V = \<lparr>shape = [1, 3, 3], elem = \<lambda>p. [[0, 0, 0], [1, 0, 0], [2, 0, 0]] ! (p ! 1) ! (p ! 2)\<rparr>"

definition ex_const_field :: "real tensor" where
  "ex_const_field = \<lparr>shape = [1, 3, 3], elem = \<lambda>p. [1, 2, 3] ! (p ! 2)\<rparr>"

text \<open>
  Point sets on a line (one channel, layout \<open>(B, N, C)\<close>) and the query point 0: three distinct
  points; the points \<open>0, 0, 1\<close>, of which two coincide; the points \<open>0, 0, 1, 3\<close>; the points
  \<open>0, 1, 5, 5\<close>, of which the two far ones coincide; and the points \<open>1, -1, 2, -2\<close>, which
  lie in pairs at the same distance from the query.
\<close>

definition ex_knn_query :: "real tensor" where
  "ex_knn_query = \<lparr>shape = [1, 1, 1], elem = \<lambda>p. 0\<rparr>"

definition ex_knn_distinct :: "real tensor" where
  "ex_knn_distinct = \<lparr>shape = [1, 3, 1], elem = \<lambda>p. [2, 0, 1] ! (p ! 1)\<rparr>"

definition ex_knn_duplicate :: "real tensor" where
  "ex_knn_duplicate = \<lparr>shape = [1, 3, 1], elem = \<lambda>p. [0, 0, 1] ! (p ! 1)\<rparr>"

definition ex_knn_four :: "real tensor" where
  "ex_knn_four = \<lparr>shape = [1, 4, 1], elem = \<lambda>p. [0, 0, 1, 3] ! (p ! 1)\<rparr>"

definition ex_knn_far :: "real tensor" where
  "ex_knn_far = \<lparr>shape = [1, 4, 1], elem = \<lambda>p. [0, 1, 5, 5] ! (p ! 1)\<rparr>"

definition ex_knn_ties :: "real tensor" where
  "ex_knn_ties = \<lparr>shape = [1, 4, 1], elem = \<lambda>p. [1, - 1, 2, - 2] ! (p ! 1)\<rparr>"

text \<open>A batch of one \<open>1 \<times> 1\<close> matrix in host memory, and a stand-in for the kernel that returns
  its argument three times.\<close>

definition ex_matrix :: "real placed" where
  "ex_matrix = \<lparr>payload = \<lparr>shape = [1, 1, 1], elem = \<lambda>p. 2\<rparr>, device = CPU\<rparr>"

definition ex_kernel :: "real placed \<Rightarrow> bool \<Rightarrow> real \<Rightarrow> nat \<Rightarrow> error + real placed \<times> real placed \<times> real placed" where
  "ex_kernel x some tol sweeps = Inr (x, x, x)"

text \<open>
  For \<^verbatim>\<open>mean_value_coordinates_3D\<close>: a check of values that accepts a tensor without NaN or
  infinity (\<^verbatim>\<open>check_values\<close> itself is not among the sources; the spec has it ``inspect
  intermediate values for NaN/Infinity''), the query point at the origin, the triangle of the
  three unit points of the axes, a triangle in a plane through the origin, a triangle with a
  corner at the origin, and two triangles with their own corner each at the origin.
\<close>

definition check_finite :: "fl tensor \<Rightarrow> bool" where
  "check_finite t = list_all (\<lambda>i. elem t i \<noteq> NaN) (indices (shape t))"

definition ex_mvc_query :: "real tensor" where
  "ex_mvc_query = \<lparr>shape = [1, 1, 3], elem = \<lambda>p. 0\<rparr>"

definition ex_mvc_axes :: "real tensor" where
  "ex_mvc_axes = \<lparr>shape = [1, 3, 3], elem = \<lambda>p. [[1, 0, 0], [0, 1, 0], [0, 0, 1]] ! (p ! 1) ! (p ! 2)\<rparr>"

definition ex_mvc_flat :: "real tensor" where
  "ex_mvc_flat = \<lparr>shape = [1, 3, 3], elem = \<lambda>p. [[1, 0, 0], [0, 1, 0], [3 / 5, 4 / 5, 0]] ! (p ! 1) ! (p ! 2)\<rparr>"

definition ex_mvc_corner :: "real tensor" where
  "ex_mvc_corner = \<lparr>shape = [1, 3, 3], elem = \<lambda>p. [[0, 0, 0], [1, 0, 0], [0, 1, 0]] ! (p ! 1) ! (p ! 2)\<rparr>"

definition ex_mvc_double :: "real tensor" where
  "ex_mvc_double =
     \<lparr>shape = [1, 4, 3], elem = \<lambda>p. [[0, 0, 0], [1, 0, 0], [0, 1, 0], [0, 0, 0]] ! (p ! 1) ! (p ! 2)\<rparr>"

definition ex_mvc_face :: "int tensor" where
  "ex_mvc_face = \<lparr>shape = [1, 1, 3], elem = \<lambda>p. [0, 1, 2] ! (p ! 2)\<rparr>"

definition ex_mvc_faces2 :: "int tensor" where
  "ex_mvc_faces2 = \<lparr>shape = [1, 2, 3], elem = \<lambda>p. [[0, 1, 2], [3, 1, 2]] ! (p ! 1) ! (p ! 2)\<rparr>"

section \<open>Arithmetic with a non-finite value\<close>

lemma fl_arith [simp]:
  "Fin x + Fin y = Fin (x + y)" "NaN + a = NaN" "a + NaN = NaN"
  "Fin x * Fin y = Fin (x * y)" "NaN * a = NaN" "a * NaN = NaN"
  "Fin x - Fin y = Fin (x - y)" "NaN - a = NaN" "a - NaN = NaN"
  "- Fin x = Fin (- x)" "- NaN = NaN"
  by (cases a; simp add: plus_fl_def times_fl_def minus_fl_def uminus_fl_def)+

lemma fl_zero [simp]: "(0::fl) = Fin 0"
  by (simp add: zero_fl_def)

lemma sum_list_Fin: "(\<Sum>x\<leftarrow>xs. Fin (f x)) = Fin (\<Sum>x\<leftarrow>xs. f x)"
  by (induction xs) simp_all

section \<open>Facts about multi-indices and the scatter loop\<close>

lemma indices_iff:
  "i \<in> set (indices s) \<longleftrightarrow> length i = length s \<and> (\<forall>k<length s. i ! k < s ! k)"
proof (induction s arbitrary: i)
  case Nil
  then show ?case by (simp add: indices.simps)
next
  case (Cons n ns)
  show ?case
  proof (cases i)
    case Nil
    then show ?thesis by (auto simp: indices.simps)
  next
    case (Cons a as)
    have "(\<forall>k<Suc (length ns). (a # as) ! k < (n # ns) ! k)
            \<longleftrightarrow> a < n \<and> (\<forall>k<length ns. as ! k < ns ! k)"
      by (auto simp: less_Suc_eq_0_disj)
    with Cons Cons.IH [of as] show ?thesis by (auto simp: indices.simps)
  qed
qed

lemma concat_map_Nil: "concat (map (\<lambda>_. []) xs) = []"
  by (induction xs) simp_all

lemma distinct_indices: "distinct (indices s)"
proof (induction s)
  case Nil
  then show ?case by (simp add: indices.simps)
next
  case (Cons n ns)
  show ?case
  proof (cases "indices ns = []")
    case True
    then show ?thesis by (simp add: indices.simps concat_map_Nil)
  next
    case False
    have "distinct (concat (map (\<lambda>i. map ((#) i) (indices ns)) [0..<n]))"
      using False by (intro distinct_concat) (auto simp: distinct_map Cons.IH inj_on_def)
    then show ?thesis by (simp add: indices.simps)
  qed
qed

lemma fold_scatter:
  fixes f0 :: "'k \<Rightarrow> 'a::comm_monoid_add"
  shows "fold (\<lambda>i f. f(p i := f (p i) + s i)) xs f0 j
           = f0 j + sum_list (map s (filter (\<lambda>i. p i = j) xs))"
  by (induction xs arbitrary: f0) (simp_all add: add.assoc)

lemma fold_max_Max:
  fixes v :: "'a::linorder"
  shows "fold max vs v = Max (set (v # vs))"
  by (rule Max.set_eq_fold [symmetric])

lemma tensor_max_ge:
  assumes "tensor_max t = Inr m" "i \<in> set (indices (shape t))"
  shows "elem t i \<le> m"
proof -
  from assms obtain v vs where vs: "map (elem t) (indices (shape t)) = v # vs"
    and m: "m = fold max vs v"
    by (auto simp: tensor_max_def split: list.splits)
  have "elem t i \<in> set (v # vs)"
    using assms(2) vs [symmetric] by (simp only: set_map) blast
  then show ?thesis
    unfolding m fold_max_Max by (intro Max_ge) auto
qed

lemma tensor_max_eq:
  assumes "indices (shape t) \<noteq> []"
  shows "tensor_max t = Inr (Max (elem t ` set (indices (shape t))))"
proof -
  from assms obtain v vs where vs: "map (elem t) (indices (shape t)) = v # vs"
    by (cases "indices (shape t)") auto
  have "set (v # vs) = elem t ` set (indices (shape t))"
    using vs [symmetric] by (simp only: set_map)
  then show ?thesis
    by (simp add: tensor_max_def vs fold_max_Max del: set_simps)
qed

section \<open>scatter_add without an explicit output size\<close>

lemma scatter_add_inplace_elem:
  assumes "scatter_add_inplace out dm idx src = Inr r" "wrap_dim (length (shape out)) dm = Inr d"
  shows "shape r = shape out"
    and "elem r j = elem out j
           + sum_list (map (elem src) (filter (\<lambda>i. i[d := nat (elem idx i)] = j) (indices (shape idx))))"
  using assms
  by (auto simp: scatter_add_inplace_def fold_scatter split: if_splits)

lemma scatter_add_default_general:
  fixes src :: "'a::comm_monoid_add tensor"
  assumes rank: "length (shape idx) = length (shape src)"
    and dlt: "d < length (shape src)"
    and nonempty: "indices (shape idx) \<noteq> []"
    and fits: "list_all (\<lambda>k. shape idx ! k \<le> shape src ! k) [0..<length (shape src)]"
    and nonneg: "list_all (\<lambda>i. 0 \<le> elem idx i) (indices (shape idx))"
  shows "\<exists>out. scatter_add src idx (int d) None fill = Inr out
           \<and> shape out = (shape src)[d := nat (Max (elem idx ` set (indices (shape idx))) + 1)]
           \<and> (\<forall>j. elem out j = fill + sum_list (map (elem src)
                  (filter (\<lambda>i. i[d := nat (elem idx i)] = j) (indices (shape idx)))))
           \<and> (\<forall>j. j \<notin> (\<lambda>i. i[d := nat (elem idx i)]) ` set (indices (shape idx)) \<longrightarrow> elem out j = fill)"
proof -
  let ?is = "indices (shape idx)"
  let ?m = "Max (elem idx ` set ?is)"
  let ?sz = "(map int (shape src))[d := ?m + 1]"
  have mx: "tensor_max idx = Inr ?m"
    by (rule tensor_max_eq [OF nonempty])
  have wd: "wrap_dim (length (shape src)) (int d) = Inr d"
    using dlt by (simp add: wrap_dim_def)
  have m0: "0 \<le> ?m"
  proof -
    from nonempty obtain i where i: "i \<in> set ?is" by (cases ?is) auto
    with nonneg have "0 \<le> elem idx i" by (simp add: list_all_iff)
    also have "elem idx i \<le> ?m" using i by (intro Max_ge) auto
    finally show ?thesis .
  qed
  have szpos: "list_all (\<lambda>n. 0 \<le> n) ?sz"
    using m0 by (auto simp: list_all_iff dest!: set_update_subset_insert [THEN subsetD])
  define out0 :: "'a tensor" where "out0 = \<lparr>shape = map nat ?sz, elem = \<lambda>_. fill\<rparr>"
  have fl: "full ?sz fill = Inr out0"
    using szpos by (simp add: full_def out0_def)
  have sh0: "shape out0 = (shape src)[d := nat (?m + 1)]"
    by (simp add: out0_def map_update comp_def)
  have len0: "length (shape out0) = length (shape src)"
    by (simp add: sh0)
  have inrange: "list_all (\<lambda>i. 0 \<le> elem idx i \<and> elem idx i < int (shape out0 ! d)) ?is"
  proof -
    have "elem idx i < int (shape out0 ! d)" if "i \<in> set ?is" for i
    proof -
      have "elem idx i \<le> ?m" using that by (intro Max_ge) auto
      then show ?thesis using dlt m0 by (simp add: sh0)
    qed
    with nonneg show ?thesis by (simp add: list_all_iff)
  qed
  have fits0: "list_all (\<lambda>k. shape idx ! k \<le> shape src ! k \<and> (k = d \<or> shape idx ! k \<le> shape out0 ! k))
                 [0..<length (shape out0)]"
    proof -
    have "shape idx ! k \<le> shape src ! k \<and> (k = d \<or> shape idx ! k \<le> shape out0 ! k)"
      if "k < length (shape src)" for k
      using that fits by (cases "k = d") (simp_all add: list_all_iff sh0)
    then show ?thesis by (simp add: list_all_iff len0)
  qed
  define out where "out = out0\<lparr>elem :=
       fold (\<lambda>i f. f(i[d := nat (elem idx i)] := f (i[d := nat (elem idx i)]) + elem src i))
         ?is (elem out0)\<rparr>"
  have sc: "scatter_add_inplace out0 (int d) idx src = Inr out"
    using nonempty rank inrange fits0 wd
    by (simp add: scatter_add_inplace_def len0 out_def)
  have res: "scatter_add src idx (int d) None fill = Inr out"
    by (simp add: scatter_add_def mx wd ScatterAdd_forward_def fl sc)
  have el: "elem out j = fill + sum_list (map (elem src)
              (filter (\<lambda>i. i[d := nat (elem idx i)] = j) ?is))" for j
    by (simp add: out_def fold_scatter) (simp add: out0_def)
  have miss: "elem out j = fill" if "j \<notin> (\<lambda>i. i[d := nat (elem idx i)]) ` set ?is" for j
  proof -
    have "filter (\<lambda>i. i[d := nat (elem idx i)] = j) ?is = []"
      using that by (auto simp: filter_empty_conv)
    then show ?thesis by (simp add: el)
  qed
  show ?thesis
    using res sh0 el miss by (intro exI [of _ out]) (simp add: out_def)
qed

text \<open>
  C10. Called without \<^verbatim>\<open>out_size\<close> on tensors of one rank, a non-empty index tensor that is no
  larger than \<^verbatim>\<open>src\<close> and holds no negative index, \<^verbatim>\<open>scatter_add\<close> returns a tensor whose size
  along the scatter dimension is the largest index plus one and whose other sizes are those of
  \<^verbatim>\<open>src\<close>; a position holds \<^verbatim>\<open>fill\<close> plus the sum of the \<^verbatim>\<open>src\<close> values scattered to it, which
  is \<^verbatim>\<open>fill\<close> itself where no index points.
\<close>

theorem scatter_add_default_out_size:
  fixes src :: "'a::comm_monoid_add tensor"
  assumes rank: "length (shape idx) = length (shape src)"
    and dlt: "d < length (shape src)"
    and nonempty: "indices (shape idx) \<noteq> []"
    and fits: "list_all (\<lambda>k. shape idx ! k \<le> shape src ! k) [0..<length (shape src)]"
    and nonneg: "list_all (\<lambda>i. 0 \<le> elem idx i) (indices (shape idx))"
  shows "\<exists>out. scatter_add src idx (int d) None fill = Inr out
           \<and> shape out = (shape src)[d := nat (Max (elem idx ` set (indices (shape idx))) + 1)]
           \<and> (\<forall>j. elem out j = fill + sum_list (map (elem src)
                  (filter (\<lambda>i. i[d := nat (elem idx i)] = j) (indices (shape idx)))))
           \<and> (\<forall>j. j \<notin> (\<lambda>i. i[d := nat (elem idx i)]) ` set (indices (shape idx)) \<longrightarrow> elem out j = fill)"
  using assms by (rule scatter_add_default_general)

section \<open>Gather and scatter-add are adjoint\<close>

lemma sum_list_delta:
  fixes h :: "'k \<Rightarrow> real"
  assumes "distinct js" "x \<in> set js"
  shows "(\<Sum>j\<leftarrow>js. if x = j then h j else 0) = h x"
proof -
  have "(\<Sum>j\<leftarrow>js. if x = j then h j else 0) = (\<Sum>j\<in>set js. if x = j then h j else 0)"
    using assms(1) by (rule sum_list_distinct_conv_sum_set)
  also have "\<dots> = h x"
    using assms(2) by (simp add: sum.delta')
  finally show ?thesis .
qed

lemma sum_list_scatter_exchange:
  fixes F g :: "'k \<Rightarrow> real"
  assumes "distinct js" "\<forall>q\<in>set qs. p q \<in> set js"
  shows "(\<Sum>j\<leftarrow>js. F j * (\<Sum>q\<leftarrow>filter (\<lambda>q. p q = j) qs. g q)) = (\<Sum>q\<leftarrow>qs. F (p q) * g q)"
  using assms(2)
proof (induction qs)
  case Nil
  then show ?case by simp
next
  case (Cons a qs)
  have "(\<Sum>j\<leftarrow>js. F j * (\<Sum>q\<leftarrow>filter (\<lambda>q. p q = j) (a # qs). g q))
          = (\<Sum>j\<leftarrow>js. (if p a = j then F j * g a else 0) + F j * (\<Sum>q\<leftarrow>filter (\<lambda>q. p q = j) qs. g q))"
    by (intro arg_cong [where f = sum_list] map_cong refl) (simp add: algebra_simps)
  also have "\<dots> = (\<Sum>j\<leftarrow>js. if p a = j then F j * g a else 0)
                    + (\<Sum>j\<leftarrow>js. F j * (\<Sum>q\<leftarrow>filter (\<lambda>q. p q = j) qs. g q))"
    by (rule sum_list_addf)
  also have "(\<Sum>j\<leftarrow>js. if p a = j then F j * g a else 0) = F (p a) * g a"
    using assms(1) Cons.prems by (intro sum_list_delta) simp_all
  also have "(\<Sum>j\<leftarrow>js. F j * (\<Sum>q\<leftarrow>filter (\<lambda>q. p q = j) qs. g q)) = (\<Sum>q\<leftarrow>qs. F (p q) * g q)"
    using Cons by simp
  finally show ?case by simp
qed

lemma to_int32_id: "0 \<le> v \<Longrightarrow> v < 2 ^ 31 \<Longrightarrow> to_int32 v = v"
  by (simp add: to_int32_def)

lemma indices3_nth:
  assumes "p \<in> set (indices [B, C, M])"
  shows "p = [p ! 0, p ! 1, p ! 2]" "p ! 0 < B" "p ! 1 < C" "p ! 2 < M"
proof -
  from assms have l: "length p = 3" and b: "\<forall>k<3. p ! k < [B, C, M] ! k"
    by (simp_all add: indices_iff)
  from l obtain a b c where p: "p = [a, b, c]"
    by (cases p; cases "tl p"; cases "tl (tl p)") auto
  show "p = [p ! 0, p ! 1, p ! 2]" by (simp add: p)
  from b [rule_format, of 0] show "p ! 0 < B" by simp
  from b [rule_format, of 1] show "p ! 1 < C" by simp
  from b [rule_format, of 2] show "p ! 2 < M" by simp
qed

lemma indices3_I: "b < B \<Longrightarrow> c < C \<Longrightarrow> m < M \<Longrightarrow> [b, c, m] \<in> set (indices [B, C, M])"
  unfolding indices_iff by (auto simp: less_Suc_eq_0_disj numeral_3_eq_3)

lemma indices2_I: "b < B \<Longrightarrow> m < M \<Longrightarrow> [b, m] \<in> set (indices [B, M])"
  unfolding indices_iff by (auto simp: less_Suc_eq_0_disj numeral_2_eq_2)

lemma fold_write:
  "fold (\<lambda>p f. f(p := v p)) xs f0 j = (if j \<in> set xs then v j else f0 j)"
  by (induction xs arbitrary: f0) auto

lemma GatherFunction_forward_ok:
  assumes F: "shape F = [B, C, N]" and idx: "shape idx = [B, M]"
  shows "GatherFunction_forward junk F idx =
           Inr (\<lparr>gather_saved_idx = idx\<lparr>elem := \<lambda>i. to_int32 (elem idx i)\<rparr>, ctx_C = C, ctx_N = N\<rparr>,
                \<lparr>shape = [B, C, M],
                 elem = \<lambda>p. if p \<in> set (indices [B, C, M])
                             then elem F [p ! 0, p ! 1, nat (to_int32 (elem idx [p ! 0, p ! 2]))]
                             else junk p\<rparr>)"
  by (simp add: GatherFunction_forward_def F idx gather_forward_def empty_tensor_def fold_write
      fun_eq_iff)

lemma GatherFunction_backward_ok:
  fixes g :: "'a::comm_monoid_add tensor"
  assumes "shape (gather_saved_idx ctx) = [B, M]"
  shows "GatherFunction_backward ctx g =
           Inr (\<lparr>shape = [B, ctx_C ctx, ctx_N ctx],
                 elem = \<lambda>j. \<Sum>p\<leftarrow>filter (\<lambda>p. [p ! 0, p ! 1, nat (elem (gather_saved_idx ctx) [p ! 0, p ! 2])] = j)
                                     (indices [B, ctx_C ctx, M]). elem g p\<rparr>, None)"
  by (simp add: GatherFunction_backward_def assms gather_backward_def zeros_def fold_scatter
      fun_eq_iff)

lemma gather_adjoint:
  fixes F g :: "real tensor"
  assumes F: "shape F = [B, C, N]" and idx: "shape idx = [B, M]"
    and rng: "list_all (\<lambda>i. 0 \<le> elem idx i \<and> elem idx i < int N) (indices [B, M])"
    and N31: "int N \<le> 2 ^ 31"
    and fw: "GatherFunction_forward junk F idx = Inr (ctx, out)"
    and bw: "GatherFunction_backward ctx g = Inr (gF, gi)"
  shows "tensor_dot out g = tensor_dot F gF"
proof -
  let ?idx' = "idx\<lparr>elem := \<lambda>i. to_int32 (elem idx i)\<rparr>"
  let ?p = "\<lambda>p. [p ! 0, p ! 1, nat (elem ?idx' [p ! 0, p ! 2])]"
  let ?qs = "indices [B, C, M]"
  from fw have ctx: "ctx = \<lparr>gather_saved_idx = ?idx', ctx_C = C, ctx_N = N\<rparr>"
    and out: "out = \<lparr>shape = [B, C, M],
                 elem = \<lambda>p. if p \<in> set ?qs
                             then elem F [p ! 0, p ! 1, nat (to_int32 (elem idx [p ! 0, p ! 2]))]
                             else junk p\<rparr>"
    unfolding GatherFunction_forward_ok [OF F idx] by simp_all
  have sh': "shape (gather_saved_idx ctx) = [B, M]"
    by (simp add: ctx idx)
  from bw have gF: "gF = \<lparr>shape = [B, C, N],
      elem = \<lambda>j. \<Sum>p\<leftarrow>filter (\<lambda>p. ?p p = j) ?qs. elem g p\<rparr>"
    unfolding GatherFunction_backward_ok [OF sh'] by (simp add: ctx)
  have inr: "?p p \<in> set (indices [B, C, N])" if "p \<in> set ?qs" for p
  proof -
    have "[p ! 0, p ! 2] \<in> set (indices [B, M])"
      using indices3_nth [OF that] by (intro indices2_I)
    with rng have r: "0 \<le> elem idx [p ! 0, p ! 2]" "elem idx [p ! 0, p ! 2] < int N"
      by (simp_all add: list_all_iff)
    with N31 have "to_int32 (elem idx [p ! 0, p ! 2]) = elem idx [p ! 0, p ! 2]"
      by (intro to_int32_id) simp_all
    with r indices3_nth [OF that] show ?thesis
      by (simp add: indices3_I)
  qed
  have "tensor_dot F gF = (\<Sum>j\<leftarrow>indices [B, C, N]. elem F j * (\<Sum>p\<leftarrow>filter (\<lambda>p. ?p p = j) ?qs. elem g p))"
    by (simp add: tensor_dot_def F gF)
  also have "\<dots> = (\<Sum>p\<leftarrow>?qs. elem F (?p p) * elem g p)"
    by (rule sum_list_scatter_exchange) (use inr distinct_indices in blast)+
  also have "\<dots> = (\<Sum>p\<leftarrow>?qs. elem out p * elem g p)"
    by (intro arg_cong [where f = sum_list] map_cong refl) (simp add: out)
  also have "\<dots> = tensor_dot out g"
    by (simp add: tensor_dot_def out)
  finally show ?thesis by simp
qed

lemma gather_backward_ones:
  assumes F: "shape F = [B, C, N]" and idx: "shape idx = [B, M]"
    and rng: "list_all (\<lambda>i. 0 \<le> elem idx i \<and> elem idx i < int N) (indices [B, M])"
    and N31: "int N \<le> 2 ^ 31"
    and fw: "GatherFunction_forward junk F idx = Inr (ctx, out)"
  shows "\<exists>gF. GatherFunction_backward ctx (ones [B, C, M]) = Inr (gF, None)
           \<and> scatter_add (ones [B, C, M]) (expand_channels idx C) 2 (Some [int B, int C, int N]) (0::real)
               = Inr gF"
proof -
  let ?idx' = "idx\<lparr>elem := \<lambda>i. to_int32 (elem idx i)\<rparr>"
  let ?qs = "indices [B, C, M]"
  let ?E = "expand_channels idx C"
  let ?src = "ones [B, C, M] :: real tensor"
  from fw have ctx: "ctx = \<lparr>gather_saved_idx = ?idx', ctx_C = C, ctx_N = N\<rparr>"
    unfolding GatherFunction_forward_ok [OF F idx] by simp
  have val: "0 \<le> elem idx [p ! 0, p ! 2] \<and> elem idx [p ! 0, p ! 2] < int N
               \<and> to_int32 (elem idx [p ! 0, p ! 2]) = elem idx [p ! 0, p ! 2]"
    if "p \<in> set ?qs" for p
  proof -
    have "[p ! 0, p ! 2] \<in> set (indices [B, M])"
      using indices3_nth [OF that] by (intro indices2_I)
    with rng have r: "0 \<le> elem idx [p ! 0, p ! 2]" "elem idx [p ! 0, p ! 2] < int N"
      by (simp_all add: list_all_iff)
    with N31 show ?thesis
      by (simp add: to_int32_id)
  qed
  have upd: "p[2 := v] = [p ! 0, p ! 1, v]" if "p \<in> set ?qs" for p and v :: nat
    by (subst (1) indices3_nth(1) [OF that]) simp
  have shE: "shape ?E = [B, C, M]"
    by (simp add: expand_channels_def idx)
  have elE: "elem ?E p = elem idx [p ! 0, p ! 2]" for p
    by (simp add: expand_channels_def)
  define r :: "real tensor" where "r = \<lparr>shape = [B, C, N], elem =
      fold (\<lambda>p f. f([p ! 0, p ! 1, nat (elem ?idx' [p ! 0, p ! 2])] :=
                    f [p ! 0, p ! 1, nat (elem ?idx' [p ! 0, p ! 2])] + elem ?src p)) ?qs (\<lambda>_. 0)\<rparr>"
  have bw: "GatherFunction_backward ctx ?src = Inr (r, None)"
    by (simp add: GatherFunction_backward_def ctx idx gather_backward_def zeros_def r_def)
  have folds: "fold (\<lambda>i f. f(i[2 := nat (elem ?E i)] := f (i[2 := nat (elem ?E i)]) + elem ?src i)) ?qs (\<lambda>_. 0)
      = fold (\<lambda>p f. f([p ! 0, p ! 1, nat (elem ?idx' [p ! 0, p ! 2])] :=
                    f [p ! 0, p ! 1, nat (elem ?idx' [p ! 0, p ! 2])] + elem ?src p)) ?qs (\<lambda>_. 0)"
    by (rule fold_cong) (simp_all add: upd val elE)
  have full0: "full [int B, int C, int N] (0::real) = Inr \<lparr>shape = [B, C, N], elem = \<lambda>_. 0\<rparr>"
    by (simp add: full_def)
  have wd: "wrap_dim (Suc (Suc (Suc 0))) 2 = Inr 2"
    by (simp add: wrap_dim_def)
  have chk1: "list_all (\<lambda>k. [B, C, M] ! k \<le> [B, C, M] ! k \<and> (k = 2 \<or> [B, C, M] ! k \<le> [B, C, N] ! k)) [0..<3]"
    by (auto simp: list_all_iff less_Suc_eq_0_disj numeral_3_eq_3)
  have chk2: "list_all (\<lambda>i. 0 \<le> elem ?E i \<and> elem ?E i < int ([B, C, N] ! 2)) ?qs"
    using val by (simp add: list_all_iff elE)
  have sc: "scatter_add_inplace \<lparr>shape = [B, C, N], elem = \<lambda>_. 0\<rparr> 2 ?E ?src = Inr r"
  proof (cases "?qs = []")
    case True
    then show ?thesis
      by (simp add: scatter_add_inplace_def wd shE r_def)
  next
    case False
    then show ?thesis
      using chk1 chk2 folds
      by (simp add: scatter_add_inplace_def wd shE r_def ones_def)
  qed
  have "scatter_add ?src ?E 2 (Some [int B, int C, int N]) (0::real) = Inr r"
    by (simp add: scatter_add_def ScatterAdd_forward_def full0 sc)
  with bw show ?thesis by blast
qed

lemma scatter_backward_adjoint:
  fixes src ograd :: "real tensor"
  assumes fw: "ScatterAdd_forward src idx dm out_size fill = Inr (ctx, out)"
    and ne: "indices (shape idx) \<noteq> []"
    and og: "shape ograd = shape out"
  shows "\<exists>grad. ScatterAdd_backward ctx ograd = Inr (grad, None, None, None, None)
           \<and> gather ograd dm idx = Inr grad
           \<and> shape grad = shape idx
           \<and> tensor_dot ograd (out\<lparr>elem := \<lambda>j. elem out j - fill\<rparr>) = tensor_dot grad src"
proof -
  let ?qs = "indices (shape idx)"
  from fw obtain out0 where f0: "full out_size fill = Inr out0"
    and sc: "scatter_add_inplace out0 dm idx src = Inr out"
    and ctx: "ctx = \<lparr>saved_idx = idx, ctx_dim = dm\<rparr>"
    by (auto simp: ScatterAdd_forward_def split: sum.splits)
  from f0 have el0: "elem out0 = (\<lambda>_. fill)"
    by (auto simp: full_def split: if_splits)
  from sc obtain d where wd: "wrap_dim (length (shape out0)) dm = Inr d"
    by (auto simp: scatter_add_inplace_def split: sum.splits)
  from sc wd ne have rk: "length (shape idx) = length (shape out0)"
    and c1: "list_all (\<lambda>k. shape idx ! k \<le> shape src ! k \<and> (k = d \<or> shape idx ! k \<le> shape out0 ! k))
               [0..<length (shape out0)]"
    and c2: "list_all (\<lambda>i. 0 \<le> elem idx i \<and> elem idx i < int (shape out0 ! d)) ?qs"
    by (auto simp: scatter_add_inplace_def split: if_splits)
  note r = scatter_add_inplace_elem [OF sc wd]
  have sho: "shape ograd = shape out0"
    using og r(1) by simp
  from wd have dlt: "d < length (shape out0)"
    by (auto simp: wrap_dim_def split: if_splits)
  define grad where "grad = \<lparr>shape = shape idx, elem = \<lambda>i. elem ograd (i[d := nat (elem idx i)])\<rparr>"
  have c1': "list_all (\<lambda>k. k = d \<or> shape idx ! k \<le> shape out0 ! k) [0..<length (shape out0)]"
    using c1 by (auto simp: list_all_iff)
  have ga: "gather ograd dm idx = Inr grad"
    using rk c1' c2 by (simp add: gather_def sho wd grad_def)
  have bw: "ScatterAdd_backward ctx ograd = Inr (grad, None, None, None, None)"
    by (simp add: ScatterAdd_backward_def ctx ga)
  have inr: "i[d := nat (elem idx i)] \<in> set (indices (shape out))" if "i \<in> set ?qs" for i
  proof -
    from that have li: "length i = length (shape idx)" and lt: "\<forall>k<length (shape idx). i ! k < shape idx ! k"
      by (simp_all add: indices_iff)
    have "i[d := nat (elem idx i)] ! k < shape out0 ! k" if k: "k < length (shape out0)" for k
    proof (cases "k = d")
      case True
      from c2 \<open>i \<in> set ?qs\<close> have "0 \<le> elem idx i" "elem idx i < int (shape out0 ! d)"
        by (simp_all add: list_all_iff)
      then show ?thesis using True k li rk by simp
    next
      case False
      from c1 k have "shape idx ! k \<le> shape out0 ! k"
        using False by (auto simp: list_all_iff)
      moreover have "i ! k < shape idx ! k" using lt k rk by simp
      ultimately show ?thesis using False by simp
    qed
    then show ?thesis
      by (simp add: indices_iff r(1) li rk)
  qed
  have "tensor_dot ograd (out\<lparr>elem := \<lambda>j. elem out j - fill\<rparr>)
          = (\<Sum>j\<leftarrow>indices (shape out). elem ograd j
               * (\<Sum>i\<leftarrow>filter (\<lambda>i. i[d := nat (elem idx i)] = j) ?qs. elem src i))"
    by (simp add: tensor_dot_def og r(2) el0)
  also have "\<dots> = (\<Sum>i\<leftarrow>?qs. elem ograd (i[d := nat (elem idx i)]) * elem src i)"
    by (rule sum_list_scatter_exchange) (use inr distinct_indices in blast)+
  also have "\<dots> = tensor_dot grad src"
    by (simp add: tensor_dot_def grad_def)
  finally show ?thesis
    using bw ga by (intro exI [of _ grad]) (simp add: grad_def)
qed

text \<open>
  C1. For features \<open>F\<close> of shape \<open>(B, C, N)\<close> and an index tensor of shape \<open>(B, M)\<close> with
  entries in \<open>[0, N)\<close>: \<^verbatim>\<open>GatherFunction.forward\<close> and \<^verbatim>\<open>backward\<close> return; the backward
  result \<open>gF\<close> for \<open>F\<close> is the adjoint of the gather, \<open>\<langle>gather(F), g\<rangle> = \<langle>F, gF\<rangle>\<close> for every output
  gradient \<open>g\<close> (a repeated index accumulates), and the gradient for the index is \<^verbatim>\<open>None\<close>; for
  the output gradient of ones, which is the gradient of \<^verbatim>\<open>sum(gather(F, idx))\<close>, it is the
  \<^verbatim>\<open>scatter_add\<close> of ones at the index (repeated over the channels) into a tensor of the shape of
  \<open>F\<close>. Conversely, where \<^verbatim>\<open>ScatterAdd.forward\<close> returned on a non-empty index tensor, its
  \<^verbatim>\<open>backward\<close> returns the \<^verbatim>\<open>torch.gather\<close> of the output gradient at the index, \<^verbatim>\<open>None\<close> for
  the other arguments, and that gather is the adjoint of the scatter-add.
\<close>

theorem gather_scatter_adjoint_pair:
  fixes F g src ograd :: "real tensor"
  assumes F: "shape F = [B, C, N]" and idx: "shape idx = [B, M]"
    and rng: "list_all (\<lambda>i. 0 \<le> elem idx i \<and> elem idx i < int N) (indices [B, M])"
    and N31: "int N \<le> 2 ^ 31"
    and fw: "ScatterAdd_forward src sidx dm out_size fill = Inr (sctx, sout)"
    and ne: "indices (shape sidx) \<noteq> []"
    and og: "shape ograd = shape sout"
  shows "\<exists>ctx out gF gOnes grad.
           GatherFunction_forward junk F idx = Inr (ctx, out)
           \<and> GatherFunction_backward ctx g = Inr (gF, None)
           \<and> tensor_dot out g = tensor_dot F gF
           \<and> GatherFunction_backward ctx (ones [B, C, M]) = Inr (gOnes, None)
           \<and> scatter_add (ones [B, C, M]) (expand_channels idx C) 2 (Some [int B, int C, int N]) (0::real)
               = Inr gOnes
           \<and> ScatterAdd_backward sctx ograd = Inr (grad, None, None, None, None)
           \<and> gather ograd dm sidx = Inr grad
           \<and> tensor_dot ograd (sout\<lparr>elem := \<lambda>j. elem sout j - fill\<rparr>) = tensor_dot grad src"
proof -
  obtain ctx out where fwg: "GatherFunction_forward junk F idx = Inr (ctx, out)"
    using GatherFunction_forward_ok [OF F idx] by blast
  have "shape (gather_saved_idx ctx) = [B, M]"
    using fwg unfolding GatherFunction_forward_ok [OF F idx] by (auto simp: idx)
  from GatherFunction_backward_ok [OF this, of g]
  obtain gF where bwg: "GatherFunction_backward ctx g = Inr (gF, None)"
    by blast
  note adj = gather_adjoint [OF F idx rng N31 fwg bwg]
  from gather_backward_ones [OF F idx rng N31 fwg]
  obtain gOnes where o: "GatherFunction_backward ctx (ones [B, C, M]) = Inr (gOnes, None)"
    "scatter_add (ones [B, C, M]) (expand_channels idx C) 2 (Some [int B, int C, int N]) (0::real)
       = Inr gOnes"
    by blast
  from scatter_backward_adjoint [OF fw ne og]
  obtain grad where s: "ScatterAdd_backward sctx ograd = Inr (grad, None, None, None, None)"
    "gather ograd dm sidx = Inr grad"
    "tensor_dot ograd (sout\<lparr>elem := \<lambda>j. elem sout j - fill\<rparr>) = tensor_dot grad src"
    by blast
  from fwg bwg adj o s show ?thesis by blast
qed

lemma indices_1_3:
  "indices [1, 3] = [[0, 0], [0, 1], [0, 2]]"
  "indices [Suc 0, 3] = [[0, 0], [0, 1], [0, 2]]"
  by (simp_all add: indices.simps upt_conv_Cons)

theorem scatter_add_default_out_size_witness:
  "\<exists>out. scatter_add ex_src ex_idx 1 None 0 = Inr out \<and> shape out = [1, 3]
         \<and> elem out [0, 0] = 7 \<and> elem out [0, 1] = 0 \<and> elem out [0, 2] = 16"
proof -
  have mx: "Max (elem ex_idx ` set (indices (shape ex_idx))) = 2"
    by (simp add: ex_idx_def indices_1_3)
  have "\<exists>out. scatter_add ex_src ex_idx (int 1) None 0 = Inr out
           \<and> shape out = (shape ex_src)[1 := nat (Max (elem ex_idx ` set (indices (shape ex_idx))) + 1)]
           \<and> (\<forall>j. elem out j = 0 + sum_list (map (elem ex_src)
                  (filter (\<lambda>i. i[1 := nat (elem ex_idx i)] = j) (indices (shape ex_idx)))))
           \<and> (\<forall>j. j \<notin> (\<lambda>i. i[1 := nat (elem ex_idx i)]) ` set (indices (shape ex_idx)) \<longrightarrow> elem out j = 0)"
    by (rule scatter_add_default_out_size)
      (simp_all add: ex_src_def ex_idx_def indices_1_3 upt_conv_Cons)
  then obtain out where "scatter_add ex_src ex_idx 1 None 0 = Inr out"
    and "shape out = (shape ex_src)[1 := nat (Max (elem ex_idx ` set (indices (shape ex_idx))) + 1)]"
    and "\<And>j. elem out j = 0 + sum_list (map (elem ex_src)
                  (filter (\<lambda>i. i[1 := nat (elem ex_idx i)] = j) (indices (shape ex_idx))))"
    by auto
  then show ?thesis
    unfolding mx by (intro exI [of _ out]) (simp add: ex_src_def ex_idx_def indices_1_3)
qed

theorem gather_scatter_adjoint_pair_witness:
  "\<exists>ctx out gF gOnes sctx sout grad.
     GatherFunction_forward (\<lambda>_. 0) ex_features ex_idx = Inr (ctx, out)
     \<and> GatherFunction_backward ctx ex_grad_out = Inr (gF, None)
     \<and> tensor_dot out ex_grad_out = tensor_dot ex_features gF
     \<and> GatherFunction_backward ctx (ones [1, 1, 3]) = Inr (gOnes, None)
     \<and> scatter_add (ones [1, 1, 3]) (expand_channels ex_idx 1) 2 (Some [1, 1, 3]) (0::real) = Inr gOnes
     \<and> ScatterAdd_forward ex_src ex_idx 1 [1, 3] 0 = Inr (sctx, sout)
     \<and> ScatterAdd_backward sctx ex_src = Inr (grad, None, None, None, None)
     \<and> gather ex_src 1 ex_idx = Inr grad
     \<and> tensor_dot ex_src (sout\<lparr>elem := \<lambda>j. elem sout j - 0\<rparr>) = tensor_dot grad ex_src"
proof -
  have F: "shape ex_features = [1, 1, 3]" and idx: "shape ex_idx = [1, 3]"
    by (simp_all add: ex_features_def ex_idx_def)
  have rng: "list_all (\<lambda>i. 0 \<le> elem ex_idx i \<and> elem ex_idx i < int 3) (indices [1, 3])"
    by (simp add: ex_idx_def indices_1_3)
  have N31: "int 3 \<le> 2 ^ 31"
    by simp
  have ne: "indices (shape ex_idx) \<noteq> []"
    by (simp add: ex_idx_def indices_1_3)
  define sout :: "real tensor" where
    "sout = \<lparr>shape = [1, 3], elem = (\<lambda>_. 0)([0, 0] := 7, [0, 2] := 16)\<rparr>"
  have fw: "ScatterAdd_forward ex_src ex_idx 1 [1, 3] 0 = Inr (\<lparr>saved_idx = ex_idx, ctx_dim = 1\<rparr>, sout)"
    by (simp add: ScatterAdd_forward_def full_def scatter_add_inplace_def wrap_dim_def
        ex_src_def ex_idx_def indices_1_3 upt_conv_Cons sout_def)
  have sh: "shape ex_src = shape sout"
    by (simp add: ex_src_def sout_def)
  from gather_scatter_adjoint_pair [OF F idx rng N31 fw ne sh, of "\<lambda>_. 0" ex_grad_out]
  show ?thesis
    using fw by auto
qed

section \<open>normalize_point_batch and its round trip\<close>

lemma bidx_self:
  assumes "i \<in> set (indices s)"
  shows "bidx s i = i"
proof -
  from assms have l: "length i = length s" and b: "\<forall>k<length s. i ! k < s ! k"
    by (simp_all add: indices_iff)
  show ?thesis
    unfolding bidx_def using l b by (intro nth_equalityI) auto
qed

lemma bidx_keepdim:
  assumes "i \<in> set (indices s)"
  shows "bidx (s[d := 1]) i = i[d := 0]"
proof -
  from assms have l: "length i = length s" and b: "\<forall>k<length s. i ! k < s ! k"
    by (simp_all add: indices_iff)
  show ?thesis
    unfolding bidx_def using l
  proof (intro nth_equalityI)
    fix k assume "k < length (map2 (\<lambda>n k. if n = 1 then 0 else k) (s[d := 1]) (drop (length i - length (s[d := 1])) i))"
    then have k: "k < length s" using l by simp
    with b have "i ! k < s ! k" by simp
    then show "map2 (\<lambda>n k. if n = 1 then 0 else k) (s[d := 1]) (drop (length i - length (s[d := 1])) i) ! k
                 = i[d := 0] ! k"
      using k l by (cases "k = d") auto
  qed simp
qed

lemma bidx_keepdim2:
  assumes "i \<in> set (indices s)"
  shows "bidx (s[d := 1, e := 1]) i = i[d := 0, e := 0]"
proof -
  from assms have l: "length i = length s" and b: "\<forall>k<length s. i ! k < s ! k"
    by (simp_all add: indices_iff)
  show ?thesis
    unfolding bidx_def using l
  proof (intro nth_equalityI)
    fix k assume "k < length (map2 (\<lambda>n k. if n = 1 then 0 else k) (s[d := 1, e := 1])
                     (drop (length i - length (s[d := 1, e := 1])) i))"
    then have k: "k < length s" using l by simp
    with b have "i ! k < s ! k" by simp
    then show "map2 (\<lambda>n k. if n = 1 then 0 else k) (s[d := 1, e := 1])
                 (drop (length i - length (s[d := 1, e := 1])) i) ! k = i[d := 0, e := 0] ! k"
      using k l by (cases "k = d"; cases "k = e") auto
  qed simp
qed

lemma nth_upd: "k < length s \<Longrightarrow> s[d := v] ! k = (if d = k then v else s ! k)"
  by (cases "d = k") simp_all

lemma align_same: "length s = r \<Longrightarrow> align r s = s"
  by (simp add: align_def)

lemma broadcast_keepdim_shape:
  "map2 (\<lambda>x y. if x = Suc 0 then y else x) s (s[d := Suc 0]) = s"
  by (intro nth_equalityI) (auto simp: nth_upd)

lemma broadcast_keepdim_shape2:
  "map2 (\<lambda>x y. if x = Suc 0 then y else x) s (s[d := Suc 0, e := Suc 0]) = s"
  by (intro nth_equalityI) (auto simp: nth_upd)

lemma broadcast_keepdim_ok:
  "list_all2 (\<lambda>x y. x = y \<or> x = Suc 0 \<or> y = Suc 0) s (s[d := Suc 0])"
  by (auto simp: list_all2_conv_all_nth nth_upd)

lemma broadcast_keepdim_ok2:
  "list_all2 (\<lambda>x y. x = y \<or> x = Suc 0 \<or> y = Suc 0) s (s[d := Suc 0, e := Suc 0])"
  by (auto simp: list_all2_conv_all_nth nth_upd)

lemma normalize_point_batch_result:
  assumes rank: "3 \<le> length (shape pc)"
    and pts: "shape pc ! (if NCHW then 2 else 1) \<noteq> 0"
  defines "pa \<equiv> (if NCHW then 2 else 1 :: nat)" and "da \<equiv> (if NCHW then 1 else 2 :: nat)"
  defines "c \<equiv> mean_keepdim pc pa"
  defines "fd \<equiv> max_keepdim (tensor_map sqrt (sum_keepdim (tensor_map (\<lambda>x. x\<^sup>2)
      \<lparr>shape = shape pc, elem = \<lambda>i. elem pc (bidx (shape pc) i) - elem c (bidx (shape c) i)\<rparr>) da)) pa"
  shows "normalize_point_batch pc NCHW =
           Inr (\<lparr>shape = shape pc,
                  elem = \<lambda>i. fdiv (elem pc (bidx (shape pc) (bidx (shape pc) i))
                                     - elem c (bidx (shape c) (bidx (shape pc) i)))
                                   (elem fd (bidx (shape fd) i))\<rparr>, c, fd)"
proof -
  have shc: "shape c = (shape pc)[pa := 1]"
    by (simp add: c_def mean_keepdim_def)
  have b1: "broadcast2 (-) pc c = Inr \<lparr>shape = shape pc,
      elem = \<lambda>i. elem pc (bidx (shape pc) i) - elem c (bidx (shape c) i)\<rparr>"
    by (simp add: broadcast2_def Let_def shc align_same broadcast_keepdim_ok broadcast_keepdim_shape)
  have shf: "shape fd = (shape pc)[da := 1, pa := 1]"
    by (simp add: fd_def max_keepdim_def tensor_map_def sum_keepdim_def)
  have b2: "broadcast2 fdiv \<lparr>shape = shape pc,
      elem = \<lambda>i. elem pc (bidx (shape pc) i) - elem c (bidx (shape c) i)\<rparr> fd
      = Inr \<lparr>shape = shape pc,
                  elem = \<lambda>i. fdiv (elem pc (bidx (shape pc) (bidx (shape pc) i))
                                     - elem c (bidx (shape c) (bidx (shape pc) i)))
                                   (elem fd (bidx (shape fd) i))\<rparr>"
    by (simp add: broadcast2_def Let_def shf align_same broadcast_keepdim_ok2 broadcast_keepdim_shape2)
  show ?thesis
    using rank pts
    unfolding normalize_point_batch_def Let_def
    by (simp add: b1 [unfolded c_def pa_def] b2 [unfolded fd_def c_def pa_def da_def]
        fd_def c_def pa_def da_def del: fdiv.simps)
qed

lemma normalize_round_trip_general:
  assumes rank: "3 \<le> length (shape pc)"
    and pts: "shape pc ! (if NCHW then 2 else 1) \<noteq> 0"
  shows "\<exists>pcn c fd r. normalize_point_batch pc NCHW = Inr (pcn, c, fd)
           \<and> denormalize pcn c fd = Inr r
           \<and> shape r = shape pc
           \<and> (\<forall>i\<in>set (indices (shape pc)).
                 elem r i = (if elem fd (i[1 := 0, 2 := 0]) = 0 then NaN else Fin (elem pc i)))"
proof -
  define pa da :: nat where "pa = (if NCHW then 2 else 1)" and "da = (if NCHW then 1 else 2)"
  define c where "c = mean_keepdim pc pa"
  define fd where "fd = max_keepdim (tensor_map sqrt (sum_keepdim (tensor_map (\<lambda>x. x\<^sup>2)
      \<lparr>shape = shape pc, elem = \<lambda>i. elem pc (bidx (shape pc) i) - elem c (bidx (shape c) i)\<rparr>) da)) pa"
  define pcn where "pcn = \<lparr>shape = shape pc,
                  elem = \<lambda>i. fdiv (elem pc (bidx (shape pc) (bidx (shape pc) i))
                                     - elem c (bidx (shape c) (bidx (shape pc) i)))
                                   (elem fd (bidx (shape fd) i))\<rparr>"
  have res: "normalize_point_batch pc NCHW = Inr (pcn, c, fd)"
    using normalize_point_batch_result [OF rank pts]
    by (simp add: pcn_def fd_def c_def pa_def da_def)
  have shc: "shape c = (shape pc)[pa := 1]"
    by (simp add: c_def mean_keepdim_def)
  have shf: "shape fd = (shape pc)[da := 1, pa := 1]"
    by (simp add: fd_def max_keepdim_def tensor_map_def sum_keepdim_def)
  define scaled where "scaled = \<lparr>shape = shape pc,
      elem = \<lambda>i. elem pcn (bidx (shape pc) i) * Fin (elem fd (bidx (shape fd) i))\<rparr>"
  have m: "broadcast2 (*) pcn (tensor_map Fin fd) = Inr scaled"
    by (simp add: broadcast2_def Let_def tensor_map_def shf pcn_def scaled_def align_same
        broadcast_keepdim_ok2 broadcast_keepdim_shape2 del: fdiv.simps)
  define r where "r = \<lparr>shape = shape pc,
      elem = \<lambda>i. elem scaled (bidx (shape pc) i) + Fin (elem c (bidx (shape c) i))\<rparr>"
  have a: "broadcast2 (+) scaled (tensor_map Fin c) = Inr r"
    by (simp add: broadcast2_def Let_def tensor_map_def shc scaled_def r_def align_same
        broadcast_keepdim_ok broadcast_keepdim_shape del: fdiv.simps)
  have den: "denormalize pcn c fd = Inr r"
    by (simp add: denormalize_def m a)
  have el: "elem r i = (if elem fd (i[1 := 0, 2 := 0]) = 0 then NaN else Fin (elem pc i))"
    if i: "i \<in> set (indices (shape pc))" for i
  proof -
    have sw: "i[2 := 0, 1 := 0] = i[1 := 0, 2 := 0]"
      by (rule list_update_swap) simp
    have bf: "bidx (shape fd) i = i[1 := 0, 2 := 0]"
      unfolding shf using bidx_keepdim2 [OF i, of da pa] sw
      by (cases NCHW) (simp_all add: pa_def da_def)
    have bc: "bidx (shape c) i = i[pa := 0]"
      unfolding shc by (rule bidx_keepdim [OF i])
    show ?thesis
      by (simp add: r_def scaled_def pcn_def bidx_self [OF i] bf bc)
  qed
  show ?thesis
    using res den el by (intro exI [of _ pcn] exI [of _ c] exI [of _ fd] exI [of _ r]) (simp add: r_def)
qed

text \<open>
  C9 (amended). For a point batch of rank three or more whose point axis is not empty, in either
  layout, \<^verbatim>\<open>normalize_point_batch\<close> returns, and
  \<^verbatim>\<open>pc_normalized * furthest_distance + centroid\<close> gives back every coordinate of every cloud
  whose furthest distance is not zero; in a cloud whose furthest distance is zero (all its
  points coincide) every coordinate of the round trip is NaN.
\<close>

theorem normalize_round_trip:
  assumes "3 \<le> length (shape pc)" and "shape pc ! (if NCHW then 2 else 1) \<noteq> 0"
  shows "\<exists>pcn c fd r. normalize_point_batch pc NCHW = Inr (pcn, c, fd)
           \<and> denormalize pcn c fd = Inr r
           \<and> shape r = shape pc
           \<and> (\<forall>i\<in>set (indices (shape pc)).
                 elem r i = (if elem fd (i[1 := 0, 2 := 0]) = 0 then NaN else Fin (elem pc i)))"
  using assms by (rule normalize_round_trip_general)

lemma bidx_3:
  "bidx [a, b, c] [i, j, k] = [if a = 1 then 0 else i, if b = 1 then 0 else j, if c = 1 then 0 else k]"
  by (simp add: bidx_def)

lemma indices_1_2_3:
  "[0, 1, 0] \<in> set (indices [1, 2, 3])"
  "[0, Suc 0, 0] \<in> set (indices [Suc 0, 2, 3])"
  "[0, 0, 0] \<in> set (indices [1, 1, 3])"
  "[0, 0, 0] \<in> set (indices [Suc 0, Suc 0, 3])"
  by (simp_all add: indices3_I)

lemma ex_two_points_fd:
  assumes "normalize_point_batch ex_two_points False = Inr (pcn, c, fd)"
  shows "elem fd [0, 0, 0] = 1"
proof -
  have r: "3 \<le> length (shape ex_two_points)" "shape ex_two_points ! (if False then 2 else 1) \<noteq> 0"
    by (simp_all add: ex_two_points_def)
  from assms show ?thesis
    unfolding normalize_point_batch_result [OF r]
    by (auto simp: max_keepdim_def tensor_map_def sum_keepdim_def mean_keepdim_def ex_two_points_def
        bidx_3 upt_conv_Cons)
qed

theorem normalize_round_trip_witness:
  "\<exists>pcn c fd r. normalize_point_batch ex_two_points False = Inr (pcn, c, fd)
     \<and> denormalize pcn c fd = Inr r \<and> elem r [0, 1, 0] = Fin 2 \<and> elem ex_two_points [0, 1, 0] = 2"
proof -
  from normalize_round_trip [of ex_two_points False]
  obtain pcn c fd r where n: "normalize_point_batch ex_two_points False = Inr (pcn, c, fd)"
    and d: "denormalize pcn c fd = Inr r"
    and e: "\<forall>i\<in>set (indices (shape ex_two_points)).
              elem r i = (if elem fd (i[1 := 0, 2 := 0]) = 0 then NaN else Fin (elem ex_two_points i))"
    by (auto simp: ex_two_points_def)
  have "elem r [0, 1, 0] = Fin (elem ex_two_points [0, 1, 0])"
    using e [rule_format, of "[0, 1, 0]"] ex_two_points_fd [OF n]
    by (simp add: ex_two_points_def indices_1_2_3)
  with n d show ?thesis
    by (intro exI [of _ pcn] exI [of _ c] exI [of _ fd] exI [of _ r]) (simp add: ex_two_points_def)
qed

lemma ex_single_point_fd:
  assumes "normalize_point_batch ex_single_point False = Inr (pcn, c, fd)"
  shows "elem fd [0, 0, 0] = 0"
proof -
  have r: "3 \<le> length (shape ex_single_point)" "shape ex_single_point ! (if False then 2 else 1) \<noteq> 0"
    by (simp_all add: ex_single_point_def)
  from assms show ?thesis
    unfolding normalize_point_batch_result [OF r]
    by (auto simp: max_keepdim_def tensor_map_def sum_keepdim_def mean_keepdim_def ex_single_point_def
        bidx_3 upt_conv_Cons)
qed

theorem normalize_round_trip_counterexample:
  "\<exists>pcn c fd r. normalize_point_batch ex_single_point False = Inr (pcn, c, fd)
     \<and> denormalize pcn c fd = Inr r
     \<and> elem r [0, 0, 0] \<noteq> Fin (elem ex_single_point [0, 0, 0])"
proof -
  from normalize_round_trip_general [of ex_single_point False]
  obtain pcn c fd r where n: "normalize_point_batch ex_single_point False = Inr (pcn, c, fd)"
    and d: "denormalize pcn c fd = Inr r"
    and e: "\<forall>i\<in>set (indices (shape ex_single_point)).
              elem r i = (if elem fd (i[1 := 0, 2 := 0]) = 0 then NaN else Fin (elem ex_single_point i))"
    by (auto simp: ex_single_point_def)
  have "elem r [0, 0, 0] = NaN"
    using e [rule_format, of "[0, 0, 0]"] ex_single_point_fd [OF n]
    by (simp add: ex_single_point_def indices_1_2_3)
  with n d show ?thesis
    by (intro exI [of _ pcn] exI [of _ c] exI [of _ fd] exI [of _ r]) simp
qed

section \<open>The cotangent values of a face\<close>

lemma upt_0_3: "[0..<3] = [0, Suc 0, 2]"
  by (simp add: upt_conv_Cons)

lemma upt_0_4: "[0..<4] = [0, Suc 0, 2, 3]"
  by (simp add: upt_conv_Cons)

lemma heron_identity:
  fixes l1 l2 l3 :: real
  shows "16 * (((l1 + l2 + l3) / 2) * ((l1 + l2 + l3) / 2 - l1) * ((l1 + l2 + l3) / 2 - l2)
            * ((l1 + l2 + l3) / 2 - l3))
         = 4 * l2\<^sup>2 * l3\<^sup>2 - (l2\<^sup>2 + l3\<^sup>2 - l1\<^sup>2)\<^sup>2"
proof -
  have a: "(l1 + l2 + l3) / 2 - l1 = (l2 + l3 - l1) / 2"
    and b: "(l1 + l2 + l3) / 2 - l2 = (l1 + l3 - l2) / 2"
    and c: "(l1 + l2 + l3) / 2 - l3 = (l1 + l2 - l3) / 2"
    by (simp_all add: field_simps)
  have "16 * (((l1 + l2 + l3) / 2) * ((l2 + l3 - l1) / 2) * ((l1 + l3 - l2) / 2) * ((l1 + l2 - l3) / 2))
          = (l1 + l2 + l3) * (l2 + l3 - l1) * (l1 + l3 - l2) * (l1 + l2 - l3)"
    by simp
  also have "\<dots> = 4 * l2\<^sup>2 * l3\<^sup>2 - (l2\<^sup>2 + l3\<^sup>2 - l1\<^sup>2)\<^sup>2"
    by algebra
  finally show ?thesis
    unfolding a b c .
qed

lemma half_cot_core:
  fixes P Q R :: real
  assumes P: "0 \<le> P" and Q: "0 \<le> Q" and S: "0 \<le> P + Q - 2 * R"
    and area: "0 < heron_area (sqrt (P + Q - 2 * R)) (sqrt Q) (sqrt P)"
  shows "((sqrt Q)\<^sup>2 + (sqrt P)\<^sup>2 - (sqrt (P + Q - 2 * R))\<^sup>2)
           / (2 * heron_area (sqrt (P + Q - 2 * R)) (sqrt Q) (sqrt P)) / 4
         = cot (arccos (R / (sqrt P * sqrt Q))) / 2"
proof -
  let ?l1 = "sqrt (P + Q - 2 * R)" and ?l2 = "sqrt Q" and ?l3 = "sqrt P"
  let ?sp = "(?l1 + ?l2 + ?l3) / 2"
  let ?rad = "?sp * (?sp - ?l1) * (?sp - ?l2) * (?sp - ?l3)"
  have sq: "?l1\<^sup>2 = P + Q - 2 * R" "?l2\<^sup>2 = Q" "?l3\<^sup>2 = P"
    using P Q S by simp_all
  have "16 * ?rad = 4 * ?l2\<^sup>2 * ?l3\<^sup>2 - (?l2\<^sup>2 + ?l3\<^sup>2 - ?l1\<^sup>2)\<^sup>2"
    by (rule heron_identity)
  also have "\<dots> = 4 * (P * Q - R\<^sup>2)"
    unfolding sq by (simp add: power2_eq_square algebra_simps)
  finally have "16 * ?rad = 4 * (P * Q - R\<^sup>2)" .
  then have rad: "?rad = (P * Q - R\<^sup>2) / 4" by linarith
  have ar: "heron_area ?l1 ?l2 ?l3 = sqrt ?rad"
    by (simp add: heron_area_def Let_def)
  from area have "0 < ?rad"
    unfolding ar by simp
  then have D: "0 < P * Q - R\<^sup>2"
    unfolding rad by simp
  have "0 < P * Q"
    using D by (smt (verit) zero_le_power2)
  then have P0: "0 < P" and Q0: "0 < Q"
    using P Q by (auto simp: zero_less_mult_iff)
  define x where "x = R / (sqrt P * sqrt Q)"
  have pq: "(sqrt P * sqrt Q)\<^sup>2 = P * Q"
    using P Q by (simp add: power_mult_distrib)
  have x2: "x\<^sup>2 = R\<^sup>2 / (P * Q)"
    by (simp add: x_def power_divide pq)
  have x1: "x\<^sup>2 < 1"
    unfolding x2 using D \<open>0 < P * Q\<close> by simp
  then have xb: "-1 \<le> x" "x \<le> 1"
    by (simp_all add: abs_square_less_1)
  have "1 - x\<^sup>2 = (P * Q - R\<^sup>2) / (P * Q)"
    unfolding x2 using P0 Q0 by (simp add: diff_divide_distrib)
  then have s1: "sqrt (1 - x\<^sup>2) = sqrt (P * Q - R\<^sup>2) / (sqrt P * sqrt Q)"
    by (simp add: real_sqrt_divide real_sqrt_mult)
  have cot: "cot (arccos x) = x / sqrt (1 - x\<^sup>2)"
    using xb by (simp add: cot_def cos_arccos sin_arccos)
  have sD: "0 < sqrt (P * Q - R\<^sup>2)"
    using D by simp
  have spq: "0 < sqrt P * sqrt Q"
    using P0 Q0 by simp
  have e: "x / (sqrt (P * Q - R\<^sup>2) / (sqrt P * sqrt Q)) = R / sqrt (P * Q - R\<^sup>2)"
    unfolding x_def using sD spq P0 Q0 by (simp add: field_simps)
  have "cot (arccos x) = R / sqrt (P * Q - R\<^sup>2)"
    by (simp only: cot s1 e)
  then have "cot (arccos (R / (sqrt P * sqrt Q))) = R / sqrt (P * Q - R\<^sup>2)"
    by (simp only: x_def)
  moreover have "heron_area ?l1 ?l2 ?l3 = sqrt (P * Q - R\<^sup>2) / 2"
    unfolding ar rad by (simp add: real_sqrt_divide)
  moreover have "?l2\<^sup>2 + ?l3\<^sup>2 - ?l1\<^sup>2 = 2 * R"
    unfolding sq by simp
  ultimately show ?thesis
    using sD by (simp add: field_simps)
qed


lemma vec_sub_nth: "j < 3 \<Longrightarrow> vec_sub u v ! j = u ! j - v ! j"
  by (simp add: vec_sub_def)

lemma vec_dot_sub:
  "vec_dot (vec_sub u v) (vec_sub w z)
     = (u ! 0 - v ! 0) * (w ! 0 - z ! 0) + (u ! 1 - v ! 1) * (w ! 1 - z ! 1)
       + (u ! 2 - v ! 2) * (w ! 2 - z ! 2)"
  by (simp add: vec_dot_def vec_sub_nth upt_0_3)

lemma vec_dot_self_nonneg: "0 \<le> vec_dot (vec_sub u v) (vec_sub u v)"
  by (simp add: vec_dot_sub)

lemma vec_dist_commute: "vec_dist u v = vec_dist v u"
  by (simp add: vec_dist_def vec_dot_sub) (simp add: algebra_simps)

lemma heron_area_rotate: "heron_area l2 l3 l1 = heron_area l1 l2 l3"
  by (simp add: heron_area_def Let_def ac_simps)

lemma half_cot_vec:
  assumes "0 < heron_area (vec_dist b c) (vec_dist c a) (vec_dist a b)"
  shows "((vec_dist c a)\<^sup>2 + (vec_dist a b)\<^sup>2 - (vec_dist b c)\<^sup>2)
           / (2 * heron_area (vec_dist b c) (vec_dist c a) (vec_dist a b)) / 4
         = cot (vertex_angle a b c) / 2"
proof -
  define P where "P = vec_dot (vec_sub b a) (vec_sub b a)"
  define Q where "Q = vec_dot (vec_sub c a) (vec_sub c a)"
  define R where "R = vec_dot (vec_sub b a) (vec_sub c a)"
  have bc: "vec_dot (vec_sub b c) (vec_sub b c) = P + Q - 2 * R"
    by (simp add: P_def Q_def R_def vec_dot_sub power2_eq_square algebra_simps)
  have l1: "vec_dist b c = sqrt (P + Q - 2 * R)"
    by (simp add: vec_dist_def bc)
  have l2: "vec_dist c a = sqrt Q"
    by (simp add: vec_dist_def Q_def)
  have l3: "vec_dist a b = sqrt P"
    unfolding vec_dist_commute [of a b] by (simp add: vec_dist_def P_def)
  have nn: "0 \<le> P" "0 \<le> Q" "0 \<le> P + Q - 2 * R"
    using vec_dot_self_nonneg [of b a] vec_dot_self_nonneg [of c a] vec_dot_self_nonneg [of b c]
    by (simp_all add: P_def Q_def bc)
  have va: "vertex_angle a b c = arccos (R / (sqrt P * sqrt Q))"
    by (simp add: vertex_angle_def P_def Q_def R_def)
  show ?thesis
    unfolding l1 l2 l3 va using nn assms [unfolded l1 l2 l3] by (rule half_cot_core)
qed

lemma cotangent_result:
  assumes V: "shape V = [B, N, 3]" and F: "shape F = [B, Fc, 3]"
    and rng: "list_all (\<lambda>p. 0 \<le> elem F p \<and> elem F p < int N) (indices [B, Fc, 3])"
  shows "\<exists>C. cotangent V F = Inr C \<and> shape C = [B, Fc, 3]
           \<and> (\<forall>b f k. elem C [b, f, k] =
                 cot_face (vec_dist (face_vertex V F b f 1) (face_vertex V F b f 2))
                          (vec_dist (face_vertex V F b f 2) (face_vertex V F b f 0))
                          (vec_dist (face_vertex V F b f 0) (face_vertex V F b f 1)) ! k)"
proof -
  define idx where "idx = (\<lambda>k. \<lparr>shape = [B, Fc, 3], elem = \<lambda>p. elem F [p ! 0, p ! 1, k]\<rparr>)"
  define v where "v = (\<lambda>k. \<lparr>shape = [B, Fc, 3], elem = \<lambda>p. elem V (p[1 := nat (elem F [p ! 0, p ! 1, k])])\<rparr>)"
  have wd: "wrap_dim (Suc (Suc (Suc 0))) 1 = Inr (Suc 0)"
    by (simp add: wrap_dim_def)
  have g: "gather V 1 (idx k) = Inr (v k)" if "k < 3" for k
  proof -
    have "0 \<le> elem F [p ! 0, p ! 1, k] \<and> elem F [p ! 0, p ! 1, k] < int N"
      if "p \<in> set (indices [B, Fc, 3])" for p
    proof -
      have "[p ! 0, p ! 1, k] \<in> set (indices [B, Fc, 3])"
        using indices3_nth [OF that] \<open>k < 3\<close> by (intro indices3_I)
      with rng show ?thesis by (simp add: list_all_iff)
    qed
    then have r: "list_all (\<lambda>i. 0 \<le> elem F [i ! 0, i ! 1, k] \<and> elem F [i ! 0, i ! 1, k] < int N)
                   (indices [B, Fc, 3])"
      by (simp add: list_all_iff)
    show ?thesis
      using r by (simp add: gather_def V idx_def v_def wd upt_0_3)
  qed
  have el: "edge_length (v i) (v j) [b, f] = vec_dist (face_vertex V F b f i) (face_vertex V F b f j)"
    for i j b f
    by (simp add: edge_length_def v_def vec_dist_def vec_dot_sub face_vertex_def upt_0_3
        power2_eq_square)
  have "cotangent V F = Inr \<lparr>shape = [B, Fc, 3],
          elem = \<lambda>p. cot_face (edge_length (v 1) (v 2) (take 2 p)) (edge_length (v 2) (v 0) (take 2 p))
                      (edge_length (v 0) (v 1) (take 2 p)) ! (p ! 2)\<rparr>"
    unfolding cotangent_def Let_def using g [of 0] g [of 1] g [of 2]
    by (simp add: F idx_def)
  then show ?thesis
    by (simp add: el)
qed

lemma cot_face_values:
  assumes "heron_area l1 l2 l3 \<noteq> 0"
  shows "cot_face l1 l2 l3 =
           [Fin ((l2\<^sup>2 + l3\<^sup>2 - l1\<^sup>2) / (2 * heron_area l1 l2 l3) / 4),
            Fin ((l1\<^sup>2 + l3\<^sup>2 - l2\<^sup>2) / (2 * heron_area l1 l2 l3) / 4),
            Fin ((l1\<^sup>2 + l2\<^sup>2 - l3\<^sup>2) / (2 * heron_area l1 l2 l3) / 4)]"
proof -
  have A: "2 * sqrt ((l1 + l2 + l3) * 0.5 * ((l1 + l2 + l3) * 0.5 - l1) * ((l1 + l2 + l3) * 0.5 - l2)
              * ((l1 + l2 + l3) * 0.5 - l3)) = 2 * heron_area l1 l2 l3"
    by (simp add: heron_area_def Let_def)
  show ?thesis
    unfolding cot_face_def Let_def A using assms by simp
qed

lemma cot_face_degenerate:
  assumes "heron_area l1 l2 l3 = 0"
  shows "cot_face l1 l2 l3 = [NaN, NaN, NaN]"
proof -
  have A: "2 * sqrt ((l1 + l2 + l3) * 0.5 * ((l1 + l2 + l3) * 0.5 - l1) * ((l1 + l2 + l3) * 0.5 - l2)
              * ((l1 + l2 + l3) * 0.5 - l3)) = 2 * heron_area l1 l2 l3"
    by (simp add: heron_area_def Let_def)
  show ?thesis
    unfolding cot_face_def Let_def A using assms by simp
qed

section \<open>The assembled cotangent Laplacian\<close>

lemma length_concat_map3:
  "length (concat (map (\<lambda>p. [f p, g p, h p]) xs)) = 3 * length xs"
  by (induction xs) simp_all

lemma zip_concat_map3:
  "zip (concat (map (\<lambda>p. [f1 p, f2 p, f3 p]) xs))
       (zip (concat (map (\<lambda>p. [g1 p, g2 p, g3 p]) xs))
            (concat (map (\<lambda>p. [h1 p, h2 p, h3 p]) xs)))
     = concat (map (\<lambda>p. [(f1 p, g1 p, h1 p), (f2 p, g2 p, h2 p), (f3 p, g3 p, h3 p)]) xs)"
  by (induction xs) simp_all

lemma indices2_nth:
  assumes "p \<in> set (indices [B, M])"
  shows "p = [p ! 0, p ! 1]" "p ! 0 < B" "p ! 1 < M"
proof -
  from assms have l: "length p = 2" and b: "\<forall>k<2. p ! k < [B, M] ! k"
    by (simp_all add: indices_iff)
  from l obtain x y where p: "p = [x, y]"
    by (cases p; cases "tl p") auto
  show "p = [p ! 0, p ! 1]" by (simp add: p)
  from b [rule_format, of 0] show "p ! 0 < B" by simp
  from b [rule_format, of 1] show "p ! 1 < M" by simp
qed

lemma offset_in_range:
  assumes "0 \<le> x" "x < int N" "b < B"
  shows "0 \<le> x + int b * int N" "x + int b * int N < int (B * N)"
proof -
  show "0 \<le> x + int b * int N" using assms by simp
  have "x + int b * int N < int N + int b * int N" using assms by simp
  also have "\<dots> = int (Suc b * N)" by (simp add: algebra_simps)
  also have "\<dots> \<le> int (B * N)" using assms(3) by (simp only: of_nat_le_iff mult_le_mono1 Suc_leI)
  finally show "x + int b * int N < int (B * N)" .
qed

lemma computeLaplacian_result:
  assumes V: "shape V = [B, N, 3]" and F: "shape F = [B, Fc, 3]"
    and rng: "list_all (\<lambda>p. 0 \<le> elem F p \<and> elem F p < int N) (indices [B, Fc, 3])"
    and C: "cotangent V F = Inr C"
    and g: "np_bound g" "sparse_bound g"
  defines "L0 \<equiv> \<lparr>shape = [B * N, B * N],
      elem = \<lambda>q. \<Sum>(v, r, c)\<leftarrow>concat (map (edge_contributions C F N) (indices [B, Fc])).
                  if r = int (q ! 0) \<and> c = int (q ! 1) then v else 0\<rparr>"
  shows "computeLaplacian_in g V F
           = Inr (sparse_sub (add_transpose L0) (diags (B * N) (row_sums (add_transpose L0))))"
proof -
  define vert where "vert = (\<lambda>p k. elem F (p @ [k]) + int (p ! 0) * int N)"
  let ?faces = "indices [B, Fc]"
  let ?data = "concat (map (\<lambda>p. map (\<lambda>k. elem C (p @ [k])) [0, 1, 2]) ?faces)"
  let ?rows = "concat (map (\<lambda>p. map (vert p) [1, 2, 0]) ?faces)"
  let ?cols = "concat (map (\<lambda>p. map (vert p) [2, 0, 1]) ?faces)"
  have vr: "0 \<le> vert p k \<and> vert p k < int (B * N)" if "p \<in> set ?faces" "k < 3" for p k
  proof -
    from indices2_nth [OF that(1)] obtain b f where p: "p = [b, f]" and b: "b < B" and f: "f < Fc"
      by metis
    have "[b, f, k] \<in> set (indices [B, Fc, 3])"
      using b f that(2) by (intro indices3_I)
    with rng have "0 \<le> elem F [b, f, k]" "elem F [b, f, k] < int N"
      by (simp_all add: list_all_iff)
    from offset_in_range [OF this b] show ?thesis
      by (simp add: vert_def p)
  qed
  have chk: "list_all (\<lambda>r. 0 \<le> r \<and> r < int (B * N)) (?rows @ ?cols)"
    using vr by (auto simp: list_all_iff)
  have csr: "csr_matrix ?data ?rows ?cols (B * N) = Inr L0"
    using chk unfolding csr_matrix_def
    by (simp add: length_concat_map3 zip_concat_map3 L0_def edge_contributions_def [abs_def] Let_def vert_def
        del: of_nat_mult)
  show ?thesis
    unfolding computeLaplacian_in_def using csr
    by (simp add: V C F g Let_def vert_def del: of_nat_mult)
qed

lemma sum_list_delta_upt:
  fixes c :: real
  assumes "i < n"
  shows "(\<Sum>j\<leftarrow>[0..<n]. if i = j then c else 0) = c"
  using sum_list_delta [of "[0..<n]" i "\<lambda>_. c"] assms by simp

lemma triples_sum_Fin:
  assumes "list_all (\<lambda>t. fst t \<noteq> NaN) ts"
  shows "(\<Sum>(v, r, c)\<leftarrow>ts. if P r c then v else 0)
           = Fin (\<Sum>(v, r, c)\<leftarrow>ts. if P r c then (case v of Fin x \<Rightarrow> x | NaN \<Rightarrow> 0) else 0)"
  using assms
proof (induction ts)
  case Nil
  then show ?case by simp
next
  case (Cons t ts)
  obtain v r c where t: "t = (v, r, c)" by (cases t)
  from Cons.prems obtain x where v: "v = Fin x"
    by (cases v) (auto simp: t)
  from Cons show ?case
    by (simp add: t v)
qed

lemma unravel_last:
  assumes "c < 3"
  shows "\<exists>b m. unravel [B, N, 3] (3 * j + c) = [b, m, c]"
proof -
  have "(3 * j + c) mod (N * 3) mod 3 = (3 * j + c) mod 3"
    by (simp add: mod_mod_cancel)
  also have "\<dots> = c"
    using assms by simp
  finally show ?thesis
    by simp
qed

lemma assembled_operator:
  fixes n :: nat and ts :: "(fl \<times> int \<times> int) list"
  assumes fin: "list_all (\<lambda>t. fst t \<noteq> NaN) ts"
  defines "L0 \<equiv> \<lparr>shape = [n, n],
      elem = \<lambda>q. \<Sum>(v, r, c)\<leftarrow>ts. if r = int (q ! 0) \<and> c = int (q ! 1) then v else 0\<rparr>"
  defines "L \<equiv> sparse_sub (add_transpose L0) (diags n (row_sums (add_transpose L0)))"
  shows "shape L = [n, n]"
    and "elem L [i, j] = elem L [j, i]"
    and "i < n \<Longrightarrow> row_sums L i = Fin 0"
    and "i < n \<Longrightarrow> elem L [i, i] = - (\<Sum>j\<leftarrow>[0..<n]. if j = i then 0 else elem L [i, j])"
    and "i < n \<Longrightarrow> c < 3 \<Longrightarrow> shape X = [B, N, 3] \<Longrightarrow> \<forall>b m k. elem X [b, m, k] = elem X [0, 0, k]
           \<Longrightarrow> elem (cotLx X L) [i, c] = Fin 0"
proof -
  define R0 where "R0 = (\<lambda>i j. \<Sum>(v, r, c)\<leftarrow>ts. if r = int i \<and> c = int j
                            then (case v of Fin x \<Rightarrow> x | NaN \<Rightarrow> 0) else 0)"
  define S where "S = (\<lambda>i j. R0 i j + R0 j i)"
  define rs where "rs = (\<lambda>i. \<Sum>j\<leftarrow>[0..<n]. S i j)"
  define R where "R = (\<lambda>i j. S i j - (if i = j then rs i else 0))"
  have e0: "elem L0 [i, j] = Fin (R0 i j)" for i j
    by (simp add: L0_def R0_def triples_sum_Fin [OF fin])
  have e1: "elem (add_transpose L0) [i, j] = Fin (S i j)" for i j
    by (simp add: add_transpose_def e0 S_def)
  have sh1: "shape (add_transpose L0) = [n, n]"
    by (simp add: add_transpose_def L0_def)
  have r1: "row_sums (add_transpose L0) i = Fin (rs i)" for i
    by (simp add: row_sums_def sh1 e1 sum_list_Fin rs_def)
  have e: "elem L [i, j] = Fin (R i j)" for i j
    by (simp add: L_def sparse_sub_def diags_def e1 r1 R_def)
  show sh: "shape L = [n, n]"
    by (simp add: L_def sparse_sub_def sh1)
  show "elem L [i, j] = elem L [j, i]"
    by (simp add: e R_def S_def)
  have rsum: "(\<Sum>j\<leftarrow>[0..<n]. R i j) = 0" if "i < n" for i
  proof -
    have "(\<Sum>j\<leftarrow>[0..<n]. R i j) = (\<Sum>j\<leftarrow>[0..<n]. S i j) - (\<Sum>j\<leftarrow>[0..<n]. if i = j then rs i else 0)"
      by (simp add: R_def sum_list_subtractf)
    also have "\<dots> = 0"
      by (simp add: sum_list_delta_upt [OF that] rs_def)
    finally show ?thesis .
  qed
  show "row_sums L i = Fin 0" if "i < n"
    by (simp add: row_sums_def sh e sum_list_Fin rsum [OF that])
  show "elem L [i, i] = - (\<Sum>j\<leftarrow>[0..<n]. if j = i then 0 else elem L [i, j])" if "i < n"
  proof -
    have "(\<Sum>j\<leftarrow>[0..<n]. if j = i then 0 else elem L [i, j])
            = (\<Sum>j\<leftarrow>[0..<n]. Fin (R i j - (if i = j then R i i else 0)))"
      by (intro arg_cong [where f = sum_list] map_cong refl) (simp add: e)
    also have "\<dots> = Fin ((\<Sum>j\<leftarrow>[0..<n]. R i j) - (\<Sum>j\<leftarrow>[0..<n]. if i = j then R i i else 0))"
      by (simp add: sum_list_Fin sum_list_subtractf)
    also have "\<dots> = Fin (- R i i)"
      by (simp add: rsum [OF that] sum_list_delta_upt [OF that])
    finally show ?thesis
      by (simp add: e)
  qed
  show "elem (cotLx X L) [i, c] = Fin 0"
    if "i < n" "c < 3" "shape X = [B, N, 3]" "\<forall>b m k. elem X [b, m, k] = elem X [0, 0, k]"
  proof -
    have x: "elem X (unravel [B, N, 3] (3 * j + c)) = elem X [0, 0, c]" for j
      using unravel_last [OF that(2), of B N j] that(4) by (auto simp del: unravel.simps)
    have "elem (cotLx X L) [i, c] = (\<Sum>j\<leftarrow>[0..<n]. Fin (R i j * elem X [0, 0, c]))"
      by (simp add: cotLx_def sh e that(3) x del: unravel.simps)
    also have "\<dots> = Fin ((\<Sum>j\<leftarrow>[0..<n]. R i j) * elem X [0, 0, c])"
      by (simp add: sum_list_Fin sum_list_mult_const)
    finally show ?thesis
      by (simp add: rsum [OF that(1)])
  qed
qed

lemma cot_face_finite:
  assumes "heron_area l1 l2 l3 \<noteq> 0" "k < 3"
  shows "cot_face l1 l2 l3 ! k \<noteq> NaN"
proof -
  from assms(2) consider "k = 0" | "k = 1" | "k = 2" by linarith
  then show ?thesis
    by cases (simp_all add: cot_face_values [OF assms(1)])
qed

lemma computeLaplacian_nondegenerate:
  assumes V: "shape V = [B, N, 3]" and F: "shape F = [B, Fc, 3]"
    and rng: "list_all (\<lambda>p. 0 \<le> elem F p \<and> elem F p < int N) (indices [B, Fc, 3])"
    and nondeg: "list_all (\<lambda>p. face_area V F (p ! 0) (p ! 1) \<noteq> 0) (indices [B, Fc])"
    and g: "np_bound g" "sparse_bound g"
  shows "\<exists>L. computeLaplacian_in g V F = Inr L \<and> shape L = [B * N, B * N]
           \<and> (\<forall>i j. elem L [i, j] = elem L [j, i])
           \<and> (\<forall>i<B * N. row_sums L i = Fin 0)
           \<and> (\<forall>i<B * N. elem L [i, i] = - (\<Sum>j\<leftarrow>[0..<B * N]. if j = i then 0 else elem L [i, j]))
           \<and> (\<forall>X. shape X = [B, N, 3] \<and> (\<forall>b m k. elem X [b, m, k] = elem X [0, 0, k])
                 \<longrightarrow> (\<forall>i<B * N. \<forall>c<3. elem (cotLx X L) [i, c] = Fin 0))"
proof -
  from cotangent_result [OF V F rng] obtain C where C: "cotangent V F = Inr C"
    and el: "\<And>b f k. elem C [b, f, k] =
                 cot_face (vec_dist (face_vertex V F b f 1) (face_vertex V F b f 2))
                          (vec_dist (face_vertex V F b f 2) (face_vertex V F b f 0))
                          (vec_dist (face_vertex V F b f 0) (face_vertex V F b f 1)) ! k"
    by blast
  let ?ts = "concat (map (edge_contributions C F N) (indices [B, Fc]))"
  have fin: "list_all (\<lambda>t. fst t \<noteq> NaN) ?ts"
  proof -
    have "fst t \<noteq> NaN" if p: "p \<in> set (indices [B, Fc])" and t: "t \<in> set (edge_contributions C F N p)"
      for p t
    proof -
      from indices2_nth [OF p] obtain b f where pb: "p = [b, f]"
        by metis
      from nondeg p have "face_area V F b f \<noteq> 0"
        by (auto simp: list_all_iff pb)
      then have "elem C [b, f, k] \<noteq> NaN" if "k < 3" for k
        unfolding el face_area_def using that by (rule cot_face_finite)
      from this [of 0] this [of 1] this [of 2] t show ?thesis
        by (auto simp: edge_contributions_def pb)
    qed
    then show ?thesis
      by (auto simp: list_all_iff)
  qed
  define L where "L = sparse_sub
      (add_transpose \<lparr>shape = [B * N, B * N],
         elem = \<lambda>q. \<Sum>(v, r, c)\<leftarrow>?ts. if r = int (q ! 0) \<and> c = int (q ! 1) then v else 0\<rparr>)
      (diags (B * N) (row_sums
        (add_transpose \<lparr>shape = [B * N, B * N],
           elem = \<lambda>q. \<Sum>(v, r, c)\<leftarrow>?ts. if r = int (q ! 0) \<and> c = int (q ! 1) then v else 0\<rparr>)))"
  have res: "computeLaplacian_in g V F = Inr L"
    unfolding L_def by (rule computeLaplacian_result [OF V F rng C g])
  note props = assembled_operator [OF fin, where n = "B * N", folded L_def]
  have p5: "\<forall>i<B * N. \<forall>c<3. elem (cotLx X L) [i, c] = Fin 0"
    if "shape X = [B, N, 3] \<and> (\<forall>b m k. elem X [b, m, k] = elem X [0, 0, k])" for X
    using props(5) [where X = X and B = B and N = N] that by blast
  show ?thesis
    using res props(1) props(2) props(3) props(4) p5
    by (intro exI [of _ L]) blast
qed


lemma indices_1_1:
  "indices [1, 1] = [[0, 0]]" "indices [Suc 0, Suc 0] = [[0, 0]]"
  by (simp_all add: indices.simps)

lemma indices_1_1_3:
  "indices [1, 1, 3] = [[0, 0, 0], [0, 0, 1], [0, 0, 2]]"
  "indices [Suc 0, Suc 0, 3] = [[0, 0, 0], [0, 0, 1], [0, 0, 2]]"
  by (simp_all add: indices.simps upt_conv_Cons)

lemma sqrt_values: "sqrt 9 = 3" "sqrt 16 = 4" "sqrt 25 = 5" "sqrt 36 = 6"
  by (rule real_sqrt_unique; simp)+

lemma ex_tri_vertices:
  "face_vertex ex_tri_V ex_tri_F 0 0 0 = [0, 0, 0]"
  "face_vertex ex_tri_V ex_tri_F 0 0 1 = [3, 0, 0]"
  "face_vertex ex_tri_V ex_tri_F 0 0 (Suc 0) = [3, 0, 0]"
  "face_vertex ex_tri_V ex_tri_F 0 0 2 = [0, 4, 0]"
  by (simp_all add: face_vertex_def ex_tri_V_def ex_tri_F_def upt_0_3)

lemma ex_tri_lengths:
  "vec_dist [3, 0, 0] [0, 4, 0] = 5" "vec_dist [0, 4, 0] [0, 0, 0] = 4" "vec_dist [0, 0, 0] [3, 0, 0] = 3"
  by (simp_all add: vec_dist_def vec_dot_sub sqrt_values)

lemma heron_5_4_3: "heron_area 5 4 3 = 6" "heron_area 4 3 5 = 6" "heron_area 3 5 4 = 6"
  by (simp_all add: heron_area_def Let_def sqrt_values)

lemma ex_tri_area: "face_area ex_tri_V ex_tri_F 0 0 = 6"
  by (simp add: face_area_def ex_tri_vertices ex_tri_lengths heron_5_4_3)

text \<open>
  C6. The module binds neither \<^verbatim>\<open>np\<close> nor \<^verbatim>\<open>sparse\<close>, so \<^verbatim>\<open>CotLaplacian.computeLaplacian\<close>
  assembles no operator: it ends in an error on every input. On the right triangle with the
  sides 3, 4 and 5, where \<^verbatim>\<open>cotangent\<close> returns its values, the error is the \<^verbatim>\<open>NameError\<close> of the
  lookup of \<^verbatim>\<open>np\<close>, and the first call of \<^verbatim>\<open>CotLaplacian.forward\<close> ends in it too.
\<close>

theorem computeLaplacian_raises_NameError:
  "(\<forall>V F. \<exists>e. computeLaplacian V F = Inl e)
   \<and> (\<exists>C. cotangent ex_tri_V ex_tri_F = Inr C)
   \<and> computeLaplacian ex_tri_V ex_tri_F = Inl NameError
   \<and> CotLaplacian_forward None ex_tri_V (Some ex_tri_F) = Inl NameError"
proof -
  have gen: "\<exists>e. computeLaplacian V F = Inl e" for V F
    by (simp add: computeLaplacian_def computeLaplacian_in_def geo_operations_globals_def
        split: list.splits sum.splits)
  have h1: "shape ex_tri_V = [1, 3, 3]" and h2: "shape ex_tri_F = [1, 1, 3]"
    by (simp_all add: ex_tri_V_def ex_tri_F_def)
  have h3: "list_all (\<lambda>p. 0 \<le> elem ex_tri_F p \<and> elem ex_tri_F p < int 3) (indices [1, 1, 3])"
    by (simp add: ex_tri_F_def indices_1_1_3)
  from cotangent_result [OF h1 h2 h3] obtain C where C: "cotangent ex_tri_V ex_tri_F = Inr C"
    by blast
  have e: "computeLaplacian ex_tri_V ex_tri_F = Inl NameError"
    by (simp add: computeLaplacian_def computeLaplacian_in_def geo_operations_globals_def h1 C)
  have f: "CotLaplacian_forward None ex_tri_V (Some ex_tri_F) = Inl NameError"
    by (simp add: CotLaplacian_forward_def e)
  from gen C e f show ?thesis by blast
qed

lemma fl_add_zero [simp]: "x + Fin 0 = x" "Fin 0 + x = x"
  by (cases x; simp)+

lemma fl_diff_zero [simp]: "x - Fin 0 = x"
  by (cases x) simp_all

lemma triples_sum_either:
  fixes ts :: "(fl \<times> int \<times> int) list"
  assumes "\<And>r c. \<not> (P r c \<and> Q r c)"
  shows "(\<Sum>(v, r, c)\<leftarrow>ts. if P r c then v else 0) + (\<Sum>(v, r, c)\<leftarrow>ts. if Q r c then v else 0)
           = (\<Sum>(v, r, c)\<leftarrow>ts. if P r c \<or> Q r c then v else 0)"
proof -
  have "(\<Sum>(v, r, c)\<leftarrow>ts. if P r c \<or> Q r c then v else 0)
          = (\<Sum>t\<leftarrow>ts. (case t of (v, r, c) \<Rightarrow> if P r c then v else 0)
                    + (case t of (v, r, c) \<Rightarrow> if Q r c then v else 0))"
    using assms by (intro arg_cong [where f = sum_list] map_cong refl) auto
  then show ?thesis
    by (simp add: sum_list_addf)
qed

lemma face_half_cot:
  assumes area: "0 < face_area V F b f"
  defines "p1 \<equiv> face_vertex V F b f 0" and "p2 \<equiv> face_vertex V F b f 1" and "p3 \<equiv> face_vertex V F b f 2"
  shows "cot_face (vec_dist p2 p3) (vec_dist p3 p1) (vec_dist p1 p2)
           = [Fin (cot (vertex_angle p1 p2 p3) / 2), Fin (cot (vertex_angle p2 p3 p1) / 2),
              Fin (cot (vertex_angle p3 p1 p2) / 2)]"
    and "cot_face (vec_dist p2 p3) (vec_dist p3 p1) (vec_dist p1 p2)
           = [Fin (((vec_dist p3 p1)\<^sup>2 + (vec_dist p1 p2)\<^sup>2 - (vec_dist p2 p3)\<^sup>2) / (8 * face_area V F b f)),
              Fin (((vec_dist p2 p3)\<^sup>2 + (vec_dist p1 p2)\<^sup>2 - (vec_dist p3 p1)\<^sup>2) / (8 * face_area V F b f)),
              Fin (((vec_dist p2 p3)\<^sup>2 + (vec_dist p3 p1)\<^sup>2 - (vec_dist p1 p2)\<^sup>2) / (8 * face_area V F b f))]"
proof -
  let ?l1 = "vec_dist p2 p3" and ?l2 = "vec_dist p3 p1" and ?l3 = "vec_dist p1 p2"
  have a: "0 < heron_area ?l1 ?l2 ?l3"
    using area by (simp add: face_area_def p1_def p2_def p3_def)
  then have a2: "0 < heron_area ?l2 ?l3 ?l1" and a3: "0 < heron_area ?l3 ?l1 ?l2"
    by (simp_all add: heron_area_rotate heron_area_rotate [of ?l3 ?l1 ?l2, symmetric])
  have r2: "heron_area ?l2 ?l3 ?l1 = heron_area ?l1 ?l2 ?l3"
    and r3: "heron_area ?l3 ?l1 ?l2 = heron_area ?l1 ?l2 ?l3"
    by (simp_all add: heron_area_rotate heron_area_rotate [of ?l3 ?l1 ?l2, symmetric])
  have v: "cot_face ?l1 ?l2 ?l3 =
           [Fin ((?l2\<^sup>2 + ?l3\<^sup>2 - ?l1\<^sup>2) / (2 * heron_area ?l1 ?l2 ?l3) / 4),
            Fin ((?l1\<^sup>2 + ?l3\<^sup>2 - ?l2\<^sup>2) / (2 * heron_area ?l1 ?l2 ?l3) / 4),
            Fin ((?l1\<^sup>2 + ?l2\<^sup>2 - ?l3\<^sup>2) / (2 * heron_area ?l1 ?l2 ?l3) / 4)]"
    using a by (intro cot_face_values) simp
  have c1: "(?l2\<^sup>2 + ?l3\<^sup>2 - ?l1\<^sup>2) / (2 * heron_area ?l1 ?l2 ?l3) / 4 = cot (vertex_angle p1 p2 p3) / 2"
    using a by (rule half_cot_vec)
  have c2: "(?l1\<^sup>2 + ?l3\<^sup>2 - ?l2\<^sup>2) / (2 * heron_area ?l1 ?l2 ?l3) / 4 = cot (vertex_angle p2 p3 p1) / 2"
    using half_cot_vec [OF a2] by (simp add: r2 add.commute)
  have c3: "(?l1\<^sup>2 + ?l2\<^sup>2 - ?l3\<^sup>2) / (2 * heron_area ?l1 ?l2 ?l3) / 4 = cot (vertex_angle p3 p1 p2) / 2"
    using half_cot_vec [OF a3] by (simp add: r3)
  show "cot_face ?l1 ?l2 ?l3
           = [Fin (cot (vertex_angle p1 p2 p3) / 2), Fin (cot (vertex_angle p2 p3 p1) / 2),
              Fin (cot (vertex_angle p3 p1 p2) / 2)]"
    unfolding v c1 c2 c3 ..
  show "cot_face ?l1 ?l2 ?l3
           = [Fin ((?l2\<^sup>2 + ?l3\<^sup>2 - ?l1\<^sup>2) / (8 * face_area V F b f)),
              Fin ((?l1\<^sup>2 + ?l3\<^sup>2 - ?l2\<^sup>2) / (8 * face_area V F b f)),
              Fin ((?l1\<^sup>2 + ?l2\<^sup>2 - ?l3\<^sup>2) / (8 * face_area V F b f))]"
    unfolding v by (simp add: face_area_def p1_def p2_def p3_def)
qed

lemma computeLaplacian_offdiag:
  assumes V: "shape V = [B, N, 3]" and F: "shape F = [B, Fc, 3]"
    and rng: "list_all (\<lambda>p. 0 \<le> elem F p \<and> elem F p < int N) (indices [B, Fc, 3])"
    and C: "cotangent V F = Inr C"
    and g: "np_bound g" "sparse_bound g"
  shows "\<exists>L. computeLaplacian_in g V F = Inr L
           \<and> (\<forall>i j. i \<noteq> j \<longrightarrow> elem L [i, j] =
                 (\<Sum>(v, r, c)\<leftarrow>concat (map (edge_contributions C F N) (indices [B, Fc])).
                    if r = int i \<and> c = int j \<or> r = int j \<and> c = int i then v else 0))"
proof -
  let ?ts = "concat (map (edge_contributions C F N) (indices [B, Fc]))"
  define L0 :: "fl tensor" where "L0 = \<lparr>shape = [B * N, B * N],
      elem = \<lambda>q. \<Sum>(v, r, c)\<leftarrow>?ts. if r = int (q ! 0) \<and> c = int (q ! 1) then v else 0\<rparr>"
  define S where "S = add_transpose L0"
  define L where "L = sparse_sub S (diags (B * N) (row_sums S))"
  have res: "computeLaplacian_in g V F = Inr L"
    unfolding L_def S_def L0_def by (rule computeLaplacian_result [OF V F rng C g])
  have "elem L [i, j] = (\<Sum>(v, r, c)\<leftarrow>?ts. if r = int i \<and> c = int j \<or> r = int j \<and> c = int i then v else 0)"
    if "i \<noteq> j" for i j
  proof -
    have "elem L [i, j] = elem S [i, j]"
      using that by (simp add: L_def sparse_sub_def diags_def)
    also have "\<dots> = elem L0 [i, j] + elem L0 [j, i]"
      by (simp add: S_def add_transpose_def)
    also have "\<dots> = (\<Sum>(v, r, c)\<leftarrow>?ts. if r = int i \<and> c = int j then v else 0)
                    + (\<Sum>(v, r, c)\<leftarrow>?ts. if r = int j \<and> c = int i then v else 0)"
      by (simp add: L0_def)
    also have "\<dots> = (\<Sum>(v, r, c)\<leftarrow>?ts. if r = int i \<and> c = int j \<or> r = int j \<and> c = int i then v else 0)"
      by (rule triples_sum_either) (use that in auto)
    finally show ?thesis .
  qed
  with res show ?thesis
    by blast
qed


text \<open>
  C7 (amended). For vertices of shape \<open>(B, N, 3)\<close> and triangles of shape \<open>(B, F, 3)\<close> with
  indices in \<open>[0, N)\<close>, and every face of positive (Heron) area: the value \<^verbatim>\<open>cotangent(V, F)\<close>
  computes for the edge 2-3 is half the cotangent of the angle at the first vertex, which is
  \<open>(l2\<^sup>2 + l3\<^sup>2 - l1\<^sup>2) / (8 Area)\<close>, and likewise for the edges 3-1 and 1-2.
\<close>

theorem cotangent_half_cotangent:
  assumes "shape V = [B, N, 3]" and "shape F = [B, Fc, 3]"
    and "list_all (\<lambda>p. 0 \<le> elem F p \<and> elem F p < int N) (indices [B, Fc, 3])"
    and "0 < face_area V F b f"
  shows "\<exists>C. cotangent V F = Inr C
           \<and> elem C [b, f, 0] = Fin (cot (vertex_angle (face_vertex V F b f 0) (face_vertex V F b f 1)
                                          (face_vertex V F b f 2)) / 2)
           \<and> elem C [b, f, 1] = Fin (cot (vertex_angle (face_vertex V F b f 1) (face_vertex V F b f 2)
                                          (face_vertex V F b f 0)) / 2)
           \<and> elem C [b, f, 2] = Fin (cot (vertex_angle (face_vertex V F b f 2) (face_vertex V F b f 0)
                                          (face_vertex V F b f 1)) / 2)
           \<and> elem C [b, f, 0] = Fin (((vec_dist (face_vertex V F b f 2) (face_vertex V F b f 0))\<^sup>2
                                     + (vec_dist (face_vertex V F b f 0) (face_vertex V F b f 1))\<^sup>2
                                     - (vec_dist (face_vertex V F b f 1) (face_vertex V F b f 2))\<^sup>2)
                                    / (8 * face_area V F b f))
           \<and> elem C [b, f, 1] = Fin (((vec_dist (face_vertex V F b f 1) (face_vertex V F b f 2))\<^sup>2
                                     + (vec_dist (face_vertex V F b f 0) (face_vertex V F b f 1))\<^sup>2
                                     - (vec_dist (face_vertex V F b f 2) (face_vertex V F b f 0))\<^sup>2)
                                    / (8 * face_area V F b f))
           \<and> elem C [b, f, 2] = Fin (((vec_dist (face_vertex V F b f 1) (face_vertex V F b f 2))\<^sup>2
                                     + (vec_dist (face_vertex V F b f 2) (face_vertex V F b f 0))\<^sup>2
                                     - (vec_dist (face_vertex V F b f 0) (face_vertex V F b f 1))\<^sup>2)
                                    / (8 * face_area V F b f))"
proof -
  from cotangent_result [OF assms(1-3)] obtain C where C: "cotangent V F = Inr C"
    and el: "\<And>b f k. elem C [b, f, k] =
                 cot_face (vec_dist (face_vertex V F b f 1) (face_vertex V F b f 2))
                          (vec_dist (face_vertex V F b f 2) (face_vertex V F b f 0))
                          (vec_dist (face_vertex V F b f 0) (face_vertex V F b f 1)) ! k"
    by blast
  note h = face_half_cot [OF assms(4)]
  have c: "elem C [b, f, 0] = Fin (cot (vertex_angle (face_vertex V F b f 0) (face_vertex V F b f 1)
                                          (face_vertex V F b f 2)) / 2)"
    "elem C [b, f, 1] = Fin (cot (vertex_angle (face_vertex V F b f 1) (face_vertex V F b f 2)
                                          (face_vertex V F b f 0)) / 2)"
    "elem C [b, f, 2] = Fin (cot (vertex_angle (face_vertex V F b f 2) (face_vertex V F b f 0)
                                          (face_vertex V F b f 1)) / 2)"
    unfolding el h(1) by simp_all
  have d: "elem C [b, f, 0] = Fin (((vec_dist (face_vertex V F b f 2) (face_vertex V F b f 0))\<^sup>2
                                     + (vec_dist (face_vertex V F b f 0) (face_vertex V F b f 1))\<^sup>2
                                     - (vec_dist (face_vertex V F b f 1) (face_vertex V F b f 2))\<^sup>2)
                                    / (8 * face_area V F b f))"
    "elem C [b, f, 1] = Fin (((vec_dist (face_vertex V F b f 1) (face_vertex V F b f 2))\<^sup>2
                                     + (vec_dist (face_vertex V F b f 0) (face_vertex V F b f 1))\<^sup>2
                                     - (vec_dist (face_vertex V F b f 2) (face_vertex V F b f 0))\<^sup>2)
                                    / (8 * face_area V F b f))"
    "elem C [b, f, 2] = Fin (((vec_dist (face_vertex V F b f 1) (face_vertex V F b f 2))\<^sup>2
                                     + (vec_dist (face_vertex V F b f 2) (face_vertex V F b f 0))\<^sup>2
                                     - (vec_dist (face_vertex V F b f 0) (face_vertex V F b f 1))\<^sup>2)
                                    / (8 * face_area V F b f))"
    unfolding el h(2) by simp_all
  show ?thesis
    by (intro exI [of _ C] conjI) (rule C c d)+
qed

theorem cotangent_half_cotangent_witness:
  "\<exists>C. cotangent ex_tri_V ex_tri_F = Inr C
     \<and> 0 < face_area ex_tri_V ex_tri_F 0 0
     \<and> elem C [0, 0, 1] = Fin (3 / 8)
     \<and> elem C [0, 0, 1] = Fin (cot (vertex_angle [3, 0, 0] [0, 4, 0] [0, 0, 0]) / 2)"
proof -
  have h1: "shape ex_tri_V = [1, 3, 3]" and h2: "shape ex_tri_F = [1, 1, 3]"
    by (simp_all add: ex_tri_V_def ex_tri_F_def)
  have h3: "list_all (\<lambda>p. 0 \<le> elem ex_tri_F p \<and> elem ex_tri_F p < int 3) (indices [1, 1, 3])"
    by (simp add: ex_tri_F_def indices_1_1_3)
  have h4: "0 < face_area ex_tri_V ex_tri_F 0 0"
    by (simp add: ex_tri_area)
  from cotangent_half_cotangent [OF h1 h2 h3 h4]
  obtain C where "cotangent ex_tri_V ex_tri_F = Inr C"
    "elem C [0, 0, 1] = Fin (cot (vertex_angle (face_vertex ex_tri_V ex_tri_F 0 0 1)
        (face_vertex ex_tri_V ex_tri_F 0 0 2) (face_vertex ex_tri_V ex_tri_F 0 0 0)) / 2)"
    "elem C [0, 0, 1] = Fin (((vec_dist (face_vertex ex_tri_V ex_tri_F 0 0 1) (face_vertex ex_tri_V ex_tri_F 0 0 2))\<^sup>2
        + (vec_dist (face_vertex ex_tri_V ex_tri_F 0 0 0) (face_vertex ex_tri_V ex_tri_F 0 0 1))\<^sup>2
        - (vec_dist (face_vertex ex_tri_V ex_tri_F 0 0 2) (face_vertex ex_tri_V ex_tri_F 0 0 0))\<^sup>2)
        / (8 * face_area ex_tri_V ex_tri_F 0 0))"
    by blast
  then show ?thesis
    using h4 by (intro exI [of _ C]) (simp add: ex_tri_vertices ex_tri_lengths ex_tri_area)
qed

theorem cotangent_half_cotangent_counterexample:
  "\<exists>C. cotangent ex_tri_V ex_tri_F = Inr C
     \<and> 0 < face_area ex_tri_V ex_tri_F 0 0
     \<and> elem C [0, 0, 1] = Fin (3 / 8)
     \<and> ((vec_dist (face_vertex ex_tri_V ex_tri_F 0 0 1) (face_vertex ex_tri_V ex_tri_F 0 0 2))\<^sup>2
          + (vec_dist (face_vertex ex_tri_V ex_tri_F 0 0 0) (face_vertex ex_tri_V ex_tri_F 0 0 1))\<^sup>2
          - (vec_dist (face_vertex ex_tri_V ex_tri_F 0 0 2) (face_vertex ex_tri_V ex_tri_F 0 0 0))\<^sup>2)
         / (4 * face_area ex_tri_V ex_tri_F 0 0) = 3 / 4
     \<and> cot (vertex_angle (face_vertex ex_tri_V ex_tri_F 0 0 1) (face_vertex ex_tri_V ex_tri_F 0 0 2)
            (face_vertex ex_tri_V ex_tri_F 0 0 0)) = 3 / 4"
proof -
  have h1: "shape ex_tri_V = [1, 3, 3]" and h2: "shape ex_tri_F = [1, 1, 3]"
    by (simp_all add: ex_tri_V_def ex_tri_F_def)
  have h3: "list_all (\<lambda>p. 0 \<le> elem ex_tri_F p \<and> elem ex_tri_F p < int 3) (indices [1, 1, 3])"
    by (simp add: ex_tri_F_def indices_1_1_3)
  have h4: "0 < face_area ex_tri_V ex_tri_F 0 0"
    by (simp add: ex_tri_area)
  from cotangent_result [OF h1 h2 h3] obtain C where C: "cotangent ex_tri_V ex_tri_F = Inr C"
    and el: "elem C [0, 0, 1] =
                 cot_face (vec_dist (face_vertex ex_tri_V ex_tri_F 0 0 1) (face_vertex ex_tri_V ex_tri_F 0 0 2))
                          (vec_dist (face_vertex ex_tri_V ex_tri_F 0 0 2) (face_vertex ex_tri_V ex_tri_F 0 0 0))
                          (vec_dist (face_vertex ex_tri_V ex_tri_F 0 0 0) (face_vertex ex_tri_V ex_tri_F 0 0 1)) ! 1"
    by blast
  note h = face_half_cot [OF h4]
  have v: "elem C [0, 0, 1] = Fin (3 / 8)"
    unfolding el h(2) by (simp add: ex_tri_vertices ex_tri_lengths ex_tri_area)
  have "elem C [0, 0, 1] = Fin (cot (vertex_angle (face_vertex ex_tri_V ex_tri_F 0 0 1)
      (face_vertex ex_tri_V ex_tri_F 0 0 2) (face_vertex ex_tri_V ex_tri_F 0 0 0)) / 2)"
    unfolding el h(1) by simp
  with v have "cot (vertex_angle (face_vertex ex_tri_V ex_tri_F 0 0 1)
      (face_vertex ex_tri_V ex_tri_F 0 0 2) (face_vertex ex_tri_V ex_tri_F 0 0 0)) = 3 / 4"
    by simp
  with C h4 v show ?thesis
    by (intro exI [of _ C]) (simp add: ex_tri_vertices ex_tri_lengths ex_tri_area)
qed

section \<open>Nearest neighbours by the dense distance matrix\<close>

lemma sort_key_cong_set:
  assumes "\<And>x. x \<in> set xs \<Longrightarrow> f x = g x"
  shows "sort_key f xs = sort_key g xs"
  using assms
proof (induction xs)
  case Nil
  then show ?case by simp
next
  case (Cons a xs)
  have ins: "insort_key f a ys = insort_key g a ys" if "set ys \<subseteq> set xs" for ys
    using that Cons.prems by (induction ys) auto
  from Cons have "sort_key f xs = sort_key g xs" by simp
  then show ?case
    using ins [of "sort_key g xs"] by simp
qed



lemma sum_list_sqr_diff:
  fixes f g :: "'c \<Rightarrow> real"
  shows "(\<Sum>c\<leftarrow>cs. f c * f c) - 2 * (\<Sum>c\<leftarrow>cs. f c * g c) + (\<Sum>c\<leftarrow>cs. g c * g c)
           = (\<Sum>c\<leftarrow>cs. (f c - g c)\<^sup>2)"
  by (induction cs) (simp_all add: power2_eq_square algebra_simps)

lemma batch_distance_matrix_general_result:
  assumes A: "shape A = [B, M, C]" and P: "shape P = [B, N, C]"
  shows "\<exists>D. batch_distance_matrix_general A P = Inr D \<and> shape D = [B, M, N]
           \<and> (\<forall>b<B. \<forall>m n. elem D [b, m, n] = sqr_distance A P b m n)"
proof -
  have "(if B = 1 then 0 else b) = b" if "b < B" for b
    using that by simp
  then show ?thesis
    unfolding batch_distance_matrix_general_def
    by (simp add: A P Let_def sqr_distance_def sum_list_sqr_diff)
qed

lemma first_occurrences_distinct:
  assumes "distinct rows"
  shows "first_occurrences rows = [0..<length rows]"
proof -
  have "rows ! i \<notin> set (take i rows)" if "i < length rows" for i
  proof
    assume "rows ! i \<in> set (take i rows)"
    then obtain j where "j < i" "rows ! j = rows ! i"
      using that by (auto simp: in_set_conv_nth)
    with assms that show False
      by (simp add: nth_eq_iff_index_eq)
  qed
  then show ?thesis
    by (simp add: first_occurrences_def)
qed










lemma group_knn_result:
  assumes P: "shape points = (if NCHW then [B, C, N] else [B, N, C])"
    and Q: "shape query = (if NCHW then [B, C, M] else [B, M, C])"
    and k: "0 \<le> k" "k \<le> int N"
    and u: "unique \<longrightarrow> 0 < B \<and> 0 < M \<and> 0 < N"
  defines "pt \<equiv> (if NCHW then transpose21 points else points)"
    and "qt \<equiv> (if NCHW then transpose21 query else query)"
  shows "\<exists>(D :: real tensor) mx knn idx dist.
           group_knn tk k query points unique NCHW = Inr (knn, idx, dist)
           \<and> (\<forall>b<B. \<forall>m n. elem D [b, m, n] = sqr_distance qt pt b m n
                  + (if unique \<and> n \<notin> set (first_occurrences (point_rows pt b)) then mx else 0))
           \<and> (unique \<longrightarrow> (\<forall>b<B. \<forall>m<M. \<forall>n<N. sqr_distance qt pt b m n \<le> mx))
           \<and> (unique \<longrightarrow> (\<exists>b<B. \<exists>m<M. \<exists>n<N. mx = sqr_distance qt pt b m n))
           \<and> (\<forall>b m j. elem idx [b, m, j]
                  = int (snd (tk [b, m] (map (\<lambda>n. - elem D [b, m, n]) [0..<N]) (nat k)) ! j))
           \<and> (\<forall>b m j. elem dist [b, m, j]
                  = - (fst (tk [b, m] (map (\<lambda>n. - elem D [b, m, n]) [0..<N]) (nat k)) ! j))
           \<and> (\<forall>b m j c. elem knn (if NCHW then [b, c, m, j] else [b, m, j, c])
                  = elem pt [b, nat (elem idx [b, m, j]), c])
           \<and> shape idx = [B, M, nat k] \<and> shape dist = [B, M, nat k]
           \<and> shape knn = (if NCHW then [B, C, M, nat k] else [B, M, nat k, C])"
proof -
  have pt: "shape pt = [B, N, C]" and qt: "shape qt = [B, M, C]"
    by (simp_all add: pt_def qt_def transpose21_def P Q)
  from batch_distance_matrix_general_result [OF qt pt]
  obtain D0 where D0: "batch_distance_matrix_general qt pt = Inr D0" "shape D0 = [B, M, N]"
    and el0: "\<And>b m n. b < B \<Longrightarrow> elem D0 [b, m, n] = sqr_distance qt pt b m n"
    by blast
  consider (plain) "\<not> unique" | (uniq) "unique" by blast
  then show ?thesis
  proof cases
    case plain
    let ?D = D0
    let ?row = "\<lambda>b m. map (\<lambda>n. - elem ?D [b, m, n]) [0..<N]"
    have res: "group_knn tk k query points unique NCHW =
      Inr (if NCHW
           then \<lparr>shape = [B, C, M, nat k],
                  elem = \<lambda>p. elem pt [p ! 0, nat (int (snd (tk [p ! 0, p ! 2] (?row (p ! 0) (p ! 2)) (nat k)) ! (p ! 3))), p ! 1]\<rparr>
           else \<lparr>shape = [B, M, nat k, C],
                  elem = \<lambda>p. elem pt [p ! 0, nat (int (snd (tk [p ! 0, p ! 1] (?row (p ! 0) (p ! 1)) (nat k)) ! (p ! 2))), p ! 3]\<rparr>,
           \<lparr>shape = [B, M, nat k], elem = \<lambda>p. int (snd (tk [p ! 0, p ! 1] (?row (p ! 0) (p ! 1)) (nat k)) ! (p ! 2))\<rparr>,
           \<lparr>shape = [B, M, nat k], elem = \<lambda>p. - (fst (tk [p ! 0, p ! 1] (?row (p ! 0) (p ! 1)) (nat k)) ! (p ! 2))\<rparr>)"
      using k plain D0 pt qt
      by (simp add: group_knn_def P Q Let_def pt_def [symmetric] qt_def [symmetric] tensor_map_def)
    show ?thesis
      apply (rule exI [of _ D0], rule exI [of _ "0::real"])
      apply (simp only: res)
      apply (cases NCHW)
       apply (simp_all add: plain el0)
      done
  next
    case uniq
    with u have pos: "0 < B" "0 < M" "0 < N" by simp_all
    have "[0, 0, 0] \<in> set (indices (shape D0))"
      unfolding D0(2) using pos by (intro indices3_I)
    then have "indices (shape D0) \<noteq> []" by auto
    from tensor_max_eq [OF this] obtain mx where mx: "tensor_max D0 = Inr mx"
      by blast
    have mxge: "sqr_distance qt pt b m n \<le> mx" if "b < B" "m < M" "n < N" for b m n
    proof -
      have "[b, m, n] \<in> set (indices (shape D0))"
        unfolding D0(2) using that by (intro indices3_I)
      from tensor_max_ge [OF mx this] show ?thesis
        by (simp add: el0 [OF that(1)])
    qed
    have mxin: "\<exists>b<B. \<exists>m<M. \<exists>n<N. mx = sqr_distance qt pt b m n"
    proof -
      have "mx = Max (elem D0 ` set (indices (shape D0)))"
        using mx tensor_max_eq [OF \<open>indices (shape D0) \<noteq> []\<close>] by simp
      also have "\<dots> \<in> elem D0 ` set (indices (shape D0))"
        using \<open>indices (shape D0) \<noteq> []\<close> by (intro Max_in) simp_all
      finally obtain p where p: "p \<in> set (indices [B, M, N])" "mx = elem D0 p"
        unfolding D0(2) by blast
      from indices3_nth [OF p(1)] have "p = [p ! 0, p ! 1, p ! 2]" "p ! 0 < B" "p ! 1 < M" "p ! 2 < N"
        by simp_all
      then show ?thesis
        using p(2) el0 [of "p ! 0" "p ! 1" "p ! 2"] by metis
    qed
    define D where "D = \<lparr>shape = [B, M, N],
        elem = \<lambda>p. elem D0 p + mx * (if p ! 2 \<in> set (first_occurrences (point_rows pt (if B = 1 then 0 else p ! 0)))
                                        then 0 else 1)\<rparr>"
    let ?row = "\<lambda>b m. map (\<lambda>n. - elem D [b, m, n]) [0..<N]"
    have res: "group_knn tk k query points unique NCHW =
      Inr (if NCHW
           then \<lparr>shape = [B, C, M, nat k],
                  elem = \<lambda>p. elem pt [p ! 0, nat (int (snd (tk [p ! 0, p ! 2] (?row (p ! 0) (p ! 2)) (nat k)) ! (p ! 3))), p ! 1]\<rparr>
           else \<lparr>shape = [B, M, nat k, C],
                  elem = \<lambda>p. elem pt [p ! 0, nat (int (snd (tk [p ! 0, p ! 1] (?row (p ! 0) (p ! 1)) (nat k)) ! (p ! 2))), p ! 3]\<rparr>,
           \<lparr>shape = [B, M, nat k], elem = \<lambda>p. int (snd (tk [p ! 0, p ! 1] (?row (p ! 0) (p ! 1)) (nat k)) ! (p ! 2))\<rparr>,
           \<lparr>shape = [B, M, nat k], elem = \<lambda>p. - (fst (tk [p ! 0, p ! 1] (?row (p ! 0) (p ! 1)) (nat k)) ! (p ! 2))\<rparr>)"
      using k uniq D0 pt qt mx
      by (simp add: group_knn_def P Q Let_def pt_def [symmetric] qt_def [symmetric] tensor_map_def D_def
          cong: if_cong)
    have elD: "elem D [b, m, n] = sqr_distance qt pt b m n
                  + (if n \<notin> set (first_occurrences (point_rows pt b)) then mx else 0)"
      if "b < B" for b m n
      using that by (auto simp: D_def el0)
    show ?thesis
      apply (rule exI [of _ D], rule exI [of _ mx])
      apply (simp only: res)
      apply (cases NCHW)
       apply (simp_all add: uniq mxge elD mxin)
      done
  qed
qed


lemma map_nth_upt: "k = length xs \<Longrightarrow> map (\<lambda>j. f (xs ! j)) [0..<k] = map f xs"
  by (rule nth_equalityI) simp_all


















section \<open>group_knn: the nearest points and the repeated points\<close>





lemma ex_knn_shapes:
  "shape ex_knn_query = (if False then [1, 1, 1] else [1, 1, 1])"
  "shape ex_knn_distinct = (if False then [1, 1, 3] else [1, 3, 1])"
  "shape ex_knn_duplicate = (if False then [1, 1, 3] else [1, 3, 1])"
  "shape ex_knn_four = (if False then [1, 1, 4] else [1, 4, 1])"
  "shape ex_knn_far = (if False then [1, 1, 4] else [1, 4, 1])"
  "shape ex_knn_ties = (if False then [1, 1, 4] else [1, 4, 1])"
  by (simp_all add: ex_knn_query_def ex_knn_distinct_def ex_knn_duplicate_def ex_knn_four_def
      ex_knn_far_def ex_knn_ties_def)

















lemma ex_knn_four_rows: "point_rows ex_knn_four 0 = [[0], [0], [1], [3]]"
  by (simp add: point_rows_def ex_knn_four_def upt_0_4)

lemma ex_knn_four_first: "first_occurrences [[0], [0], [1], [3::real]] = [0, 2, 3]"
  by (simp add: first_occurrences_def upt_0_4)

lemma ex_knn_four_dist:
  "sqr_distance ex_knn_query ex_knn_four 0 0 0 = 0"
  "sqr_distance ex_knn_query ex_knn_four 0 0 (Suc 0) = 0"
  "sqr_distance ex_knn_query ex_knn_four 0 0 2 = 1"
  "sqr_distance ex_knn_query ex_knn_four 0 0 3 = 9"
  by (simp_all add: sqr_distance_def ex_knn_query_def ex_knn_four_def)



lemma ex_knn_four_result:
  fixes tk :: topk_fun
  obtains knn idx dist where
    "group_knn tk 3 ex_knn_query ex_knn_four True False = Inr (knn, idx, dist)"
    and "\<forall>j. elem idx [0, 0, j] = int (snd (tk [0, 0] [0, - 9, - 1, - 9] 3) ! j)"
    and "\<forall>j. elem dist [0, 0, j] = - (fst (tk [0, 0] [0, - 9, - 1, - 9] 3) ! j)"
proof -
  let ?pt = "if False then transpose21 ex_knn_four else ex_knn_four"
  let ?qt = "if False then transpose21 ex_knn_query else ex_knn_query"
  have k: "(0::int) \<le> 3" "(3::int) \<le> int 4" and u: "True \<longrightarrow> 0 < (1::nat) \<and> 0 < (1::nat) \<and> 0 < (4::nat)"
    by simp_all
  from group_knn_result [OF ex_knn_shapes(4) ex_knn_shapes(1) k u, of tk]
  obtain D :: "real tensor" and mx knn idx dist where all:
    "group_knn tk 3 ex_knn_query ex_knn_four True False = Inr (knn, idx, dist)
           \<and> (\<forall>b<1. \<forall>m n. elem D [b, m, n] = sqr_distance ?qt ?pt b m n
                  + (if True \<and> n \<notin> set (first_occurrences (point_rows ?pt b)) then mx else 0))
           \<and> (True \<longrightarrow> (\<forall>b<1. \<forall>m<1. \<forall>n<4. sqr_distance ?qt ?pt b m n \<le> mx))
           \<and> (True \<longrightarrow> (\<exists>b<1. \<exists>m<1. \<exists>n<4. mx = sqr_distance ?qt ?pt b m n))
           \<and> (\<forall>b m j. elem idx [b, m, j]
                  = int (snd (tk [b, m] (map (\<lambda>n. - elem D [b, m, n]) [0..<4]) (nat 3)) ! j))
           \<and> (\<forall>b m j. elem dist [b, m, j]
                  = - (fst (tk [b, m] (map (\<lambda>n. - elem D [b, m, n]) [0..<4]) (nat 3)) ! j))
           \<and> (\<forall>b m j c. elem knn (if False then [b, c, m, j] else [b, m, j, c])
                  = elem ?pt [b, nat (elem idx [b, m, j]), c])
           \<and> shape idx = [1, 1, nat 3] \<and> shape dist = [1, 1, nat 3]
           \<and> shape knn = (if False then [1, 1, 1, nat 3] else [1, 1, nat 3, 1])"
    by (elim exE) (rule that)
  note res = all [THEN conjunct1]
  note elD = all [THEN conjunct2, THEN conjunct1]
  note mx1 = all [THEN conjunct2, THEN conjunct2, THEN conjunct1]
  note mx2 = all [THEN conjunct2, THEN conjunct2, THEN conjunct2, THEN conjunct1]
  note eli = all [THEN conjunct2, THEN conjunct2, THEN conjunct2, THEN conjunct2, THEN conjunct1]
  note eld = all [THEN conjunct2, THEN conjunct2, THEN conjunct2, THEN conjunct2, THEN conjunct2, THEN conjunct1]
  from mx1 have "sqr_distance ex_knn_query ex_knn_four 0 0 3 \<le> mx"
    by simp
  then have ge: "9 \<le> mx"
    by (simp add: ex_knn_four_dist)
  from mx2 obtain n where "n < 4" "mx = sqr_distance ex_knn_query ex_knn_four 0 0 n"
    by auto
  then have "mx \<le> 9"
    using ex_knn_four_dist by (auto simp: less_Suc_eq eval_nat_numeral)
  with ge have mx: "mx = 9" by simp
  have D: "elem D [0, 0, n] = sqr_distance ex_knn_query ex_knn_four 0 0 n
                  + (if n \<notin> set (first_occurrences (point_rows ex_knn_four 0)) then mx else 0)" for n
    using elD by simp
  have row: "map (\<lambda>n. - elem D [0, 0, n]) [0..<4] = [0, - 9, - 1, - 9]"
    by (simp add: upt_0_4 D ex_knn_four_rows ex_knn_four_first ex_knn_four_dist mx)
  have i: "\<forall>j. elem idx [0, 0, j] = int (snd (tk [0, 0] [0, - 9, - 1, - 9] 3) ! j)"
    using eli by (simp add: row)
  have d: "\<forall>j. elem dist [0, 0, j] = - (fst (tk [0, 0] [0, - 9, - 1, - 9] 3) ! j)"
    using eld by (simp add: row)
  from res i d show thesis
    by (rule that)
qed

text \<open>
  In the exception the order of equal values decides. For the query 0, the points
  \<open>0, 0, 1, 3\<close> and \<open>k = 3\<close>, the second point with its penalty and the last point are both at
  the distance 9: a \<open>topk\<close> that takes the lower index first returns the points 0, 2 and 1, of
  which two coincide, and one that takes the higher index first returns the points 0, 2 and 3.
\<close>

lemma group_knn_unique_tie_order:
  "(\<exists>knn idx dist.
      group_knn topk_stable 3 ex_knn_query ex_knn_four True False = Inr (knn, idx, dist)
      \<and> map (\<lambda>j. elem idx [0, 0, j]) [0..<3] = [0, 2, 1])
   \<and> (\<exists>knn idx dist.
        group_knn topk_last 3 ex_knn_query ex_knn_four True False = Inr (knn, idx, dist)
        \<and> map (\<lambda>j. elem idx [0, 0, j]) [0..<3] = [0, 2, 3])"
proof (intro conjI)
  obtain knn idx dist where
    "group_knn topk_stable 3 ex_knn_query ex_knn_four True False = Inr (knn, idx, dist)"
    and "\<forall>j. elem idx [0, 0, j] = int (snd (topk_stable [0, 0] [0, - 9, - 1, - 9] 3) ! j)"
    and "\<forall>j. elem dist [0, 0, j] = - (fst (topk_stable [0, 0] [0, - 9, - 1, - 9] 3) ! j)"
    by (rule ex_knn_four_result [of topk_stable]) (rule that, assumption+)
  moreover have "topk_stable [0, 0] [0, - 9, - 1, - 9] 3 = ([0, - 1, - 9], [0, 2, 1])"
    by (simp add: topk_stable_def upt_0_4 Let_def)
  ultimately show "\<exists>knn idx dist.
      group_knn topk_stable 3 ex_knn_query ex_knn_four True False = Inr (knn, idx, dist)
      \<and> map (\<lambda>j. elem idx [0, 0, j]) [0..<3] = [0, 2, 1]"
    apply (intro exI [of _ knn], intro exI [of _ idx], intro exI [of _ dist])
    apply (simp add: upt_0_3)
    done
next
  obtain knn idx dist where
    "group_knn topk_last 3 ex_knn_query ex_knn_four True False = Inr (knn, idx, dist)"
    and "\<forall>j. elem idx [0, 0, j] = int (snd (topk_last [0, 0] [0, - 9, - 1, - 9] 3) ! j)"
    and "\<forall>j. elem dist [0, 0, j] = - (fst (topk_last [0, 0] [0, - 9, - 1, - 9] 3) ! j)"
    by (rule ex_knn_four_result [of topk_last]) (rule that, assumption+)
  moreover have "topk_last [0, 0] [0, - 9, - 1, - 9] 3 = ([0, - 1, - 9], [0, 2, 3])"
    by (simp add: topk_last_def upt_0_4 Let_def)
  ultimately show "\<exists>knn idx dist.
        group_knn topk_last 3 ex_knn_query ex_knn_four True False = Inr (knn, idx, dist)
        \<and> map (\<lambda>j. elem idx [0, 0, j]) [0..<3] = [0, 2, 3]"
    apply (intro exI [of _ knn], intro exI [of _ idx], intro exI [of _ dist])
    apply (simp add: upt_0_3)
    done
qed

subsection \<open>Batched singular value decomposition\<close>

lemma guard_never_raises:
  "(if \<not> cuda_is_available env then py_assert bool_RuntimeError else Inr ()) = Inr ()"
  by (simp add: py_assert_def bool_RuntimeError_def)

lemma cuda_unavailable: "\<not> cuda_is_available env \<Longrightarrow> \<exists>e. cuda env x = Inl e"
  by (cases env) (simp_all add: cuda_def cuda_is_available_def)

lemma BatchSVDFunction_forward_unavailable:
  assumes "\<not> cuda_is_available env"
  shows "\<exists>e. cuda env x = Inl e \<and> BatchSVDFunction_forward env svd_kernel x = Inl e"
proof -
  from cuda_unavailable [OF assms] obtain e where "cuda env x = Inl e" by blast
  then show ?thesis
    by (simp add: BatchSVDFunction_forward_def guard_never_raises Let_def)
qed

text \<open>
  C4. Without a usable CUDA device, \<^verbatim>\<open>BatchSVDFunction.forward\<close> and \<^verbatim>\<open>batch_svd\<close> raise, and they
  do so before the kernel is called: the outcome is the same whatever the kernel would compute.
\<close>

theorem batch_svd_fails_without_cuda:
  assumes "\<not> cuda_is_available env"
  shows "(\<exists>e. BatchSVDFunction_forward env svd_kernel x = Inl e)
         \<and> (\<exists>e. batch_svd env svd_kernel x = Inl e)
         \<and> BatchSVDFunction_forward env svd_kernel x = BatchSVDFunction_forward env svd_kernel2 x
         \<and> batch_svd env svd_kernel x = batch_svd env svd_kernel2 x"
proof -
  from BatchSVDFunction_forward_unavailable [OF assms]
  obtain e where e: "cuda env x = Inl e" "BatchSVDFunction_forward env svd_kernel x = Inl e"
    by blast
  from BatchSVDFunction_forward_unavailable [OF assms]
  obtain e' where e': "cuda env x = Inl e'" "BatchSVDFunction_forward env svd_kernel2 x = Inl e'"
    by blast
  from e(1) e'(1) have "e' = e" by simp
  with e e' show ?thesis
    by (simp add: batch_svd_def py_assert_def)
qed

theorem batch_svd_fails_without_cuda_witness:
  "cuda_is_available NoDevice = False
   \<and> BatchSVDFunction_forward NoDevice ex_kernel ex_matrix = Inl RuntimeError
   \<and> batch_svd NoDevice ex_kernel ex_matrix = Inl RuntimeError
   \<and> batch_svd NotCompiled ex_kernel ex_matrix = Inl AssertionError
   \<and> (\<exists>r. batch_svd Available ex_kernel ex_matrix = Inr r)"
proof -
  have n: "\<not> cuda_is_available NoDevice"
    by (simp add: cuda_is_available_def)
  from batch_svd_fails_without_cuda [OF n, of ex_kernel ex_matrix ex_kernel]
  have "\<exists>e. batch_svd NoDevice ex_kernel ex_matrix = Inl e" by blast
  moreover have "BatchSVDFunction_forward NoDevice ex_kernel ex_matrix = Inl RuntimeError"
    by (simp add: BatchSVDFunction_forward_def guard_never_raises cuda_def)
  moreover have "BatchSVDFunction_forward NotCompiled ex_kernel ex_matrix = Inl AssertionError"
    by (simp add: BatchSVDFunction_forward_def guard_never_raises cuda_def)
  moreover have "\<exists>r. BatchSVDFunction_forward Available ex_kernel ex_matrix = Inr r"
    by (simp add: BatchSVDFunction_forward_def guard_never_raises cuda_def ex_kernel_def
        ex_matrix_def narrow_last_def Let_def)
  ultimately show ?thesis
    using n by (auto simp: batch_svd_def py_assert_def ex_matrix_def)
qed

section \<open>mean_value_coordinates_3D: the rows of the result\<close>

lemma fl_div_simps [simp]:
  "fl_div a NaN = NaN" "fl_div NaN a = NaN"
  by (cases a; simp)+

lemma mvc_finish_result:
  assumes fin: "mvc_finish dj wj0 = Inr w"
    and dj: "shape dj = [B, P, N, 1]" and wj0: "shape wj0 = [B, P, W]"
    and b: "b < B" and p: "p < P"
  defines "K \<equiv> (if N = 1 then W else N)"
  defines "g \<equiv> (\<lambda>k. if elem dj [b, p, if N = 1 then 0 else k, 0] < 1 / 10 ^ 8 then Fin 1
                     else if list_ex (\<lambda>n. elem dj [b, p, n, 0] < 1 / 10 ^ 8) [0..<N] then 0
                     else elem wj0 [b, p, if W = 1 then 0 else k])"
  shows "N = W \<or> N = 1 \<or> W = 1"
    and "shape w = [B, P, K]"
    and "j < K \<Longrightarrow> elem w [b, p, j]
           = fl_div (g j) (if (\<Sum>k\<leftarrow>[0..<K]. g k) = 0 then Fin 1 else (\<Sum>k\<leftarrow>[0..<K]. g k))"
proof -
  let ?close = "\<lparr>shape = [B, P, N], elem = \<lambda>i. elem dj (i @ [0]) < 1 / 10 ^ 8\<rparr> :: bool tensor"
  let ?any = "\<lparr>shape = [B, P, 1],
                elem = \<lambda>i. list_ex (\<lambda>k. elem ?close (i[2 := k])) [0..<N]\<rparr> :: bool tensor"
  define wj1 :: "fl tensor" where
    "wj1 = \<lparr>shape = [B, P, W],
            elem = \<lambda>i. if elem ?any (bidx [B, P, 1] i) then 0 else elem wj0 (bidx [B, P, W] i)\<rparr>"
  have b1: "broadcast2 (\<lambda>c w. if c then 0 else w) ?any wj0 = Inr wj1"
    by (simp add: broadcast2_def align_def wj0 wj1_def Let_def cong: if_cong)
  from fin have step: "(case broadcast2 (\<lambda>c w. if c then Fin 1 else w) ?close wj1 of
            Inl e \<Rightarrow> Inl e
          | Inr wj \<Rightarrow>
              let sumWj = \<lparr>shape = (shape wj)[2 := 1],
                            elem = \<lambda>i. \<Sum>k\<leftarrow>[0..<shape wj ! 2]. elem wj (i[2 := k])\<rparr>;
                  sumWj = tensor_map (\<lambda>s. if s = 0 then Fin 1 else s) sumWj
              in broadcast2 fl_div wj sumWj) = Inr w"
    using b1 by (simp add: mvc_finish_def dj Let_def del: fl_zero)
  have sh1: "shape wj1 = [B, P, W]" by (simp add: wj1_def)
  show compat: "N = W \<or> N = 1 \<or> W = 1"
    using step by (auto simp: broadcast2_def align_def sh1 Let_def split: if_splits)
  define wj :: "fl tensor" where
    "wj = \<lparr>shape = [B, P, K],
           elem = \<lambda>i. if elem ?close (bidx [B, P, N] i) then Fin 1 else elem wj1 (bidx [B, P, W] i)\<rparr>"
  have b2: "broadcast2 (\<lambda>c w. if c then Fin 1 else w) ?close wj1 = Inr wj"
    using compat by (auto simp: broadcast2_def align_def sh1 wj_def Let_def K_def cong: if_cong)
  define sumWj :: "fl tensor" where
    "sumWj = \<lparr>shape = [B, P, 1],
              elem = \<lambda>i. (let s = (\<Sum>k\<leftarrow>[0..<K]. elem wj (i[2 := k])) in if s = 0 then Fin 1 else s)\<rparr>"
  have shj: "shape wj = [B, P, K]" by (simp add: wj_def)
  from step b2 have b3: "broadcast2 fl_div wj sumWj = Inr w"
    by (simp add: Let_def shj tensor_map_def sumWj_def del: fl_zero cong: if_cong)
  then have w: "w = \<lparr>shape = [B, P, K],
                      elem = \<lambda>i. fl_div (elem wj (bidx [B, P, K] i)) (elem sumWj (bidx [B, P, 1] i))\<rparr>"
    by (auto simp: broadcast2_def align_def shj sumWj_def Let_def)
  show "shape w = [B, P, K]" by (simp add: w)
  have bb: "(if B = 1 then 0 else b) = b" "(if P = 1 then 0 else p) = p"
    using b p by auto
  have bbS: "(if B = Suc 0 then 0 else b) = b" "(if P = Suc 0 then 0 else p) = p"
    using b p by auto
  have any: "elem ?any [b, p, 0] = list_ex (\<lambda>n. elem dj [b, p, n, 0] < 1 / 10 ^ 8) [0..<N]"
    by simp
  have elj: "elem wj [b, p, k] = g k" if "k < K" for k
  proof -
    have "(if W = 1 then 0 else (if W = 1 then 0 else k)) = (if W = 1 then 0 else k)" by simp
    then show ?thesis
      by (simp add: wj_def wj1_def bidx_3 bbS g_def)
  qed
  have sum: "(\<Sum>k\<leftarrow>[0..<K]. elem wj [b, p, k]) = (\<Sum>k\<leftarrow>[0..<K]. g k)"
    by (intro arg_cong [where f = sum_list] map_cong refl) (simp add: elj)
  show "elem w [b, p, j]
           = fl_div (g j) (if (\<Sum>k\<leftarrow>[0..<K]. g k) = 0 then Fin 1 else (\<Sum>k\<leftarrow>[0..<K]. g k))"
    if "j < K"
  proof -
    have jj: "(if K = Suc 0 then 0 else j) = j" using that by auto
    show ?thesis
      by (simp add: w bidx_3 bbS jj sumWj_def elj [OF that] sum Let_def del: fl_zero)
  qed
qed


lemma sum_list_delta_monoid:
  fixes h :: "nat \<Rightarrow> 'a::comm_monoid_add"
  assumes "x < W"
  shows "(\<Sum>j\<leftarrow>[0..<W]. if x = j then h j else 0) = h x"
proof -
  have "(\<Sum>j\<leftarrow>[0..<W]. if x = j then h j else 0) = (\<Sum>j\<in>set [0..<W]. if x = j then h j else 0)"
    by (rule sum_list_distinct_conv_sum_set) simp
  also have "\<dots> = h x"
    using assms by (simp add: sum.delta')
  finally show ?thesis .
qed

lemma sum_list_filter_partition:
  fixes g :: "'b \<Rightarrow> 'a::comm_monoid_add"
  assumes "\<forall>q\<in>set qs. \<phi> q < W"
  shows "(\<Sum>j\<leftarrow>[0..<W]. \<Sum>q\<leftarrow>filter (\<lambda>q. \<phi> q = j) qs. g q) = (\<Sum>q\<leftarrow>qs. g q)"
  using assms
proof (induction qs)
  case Nil
  then show ?case by simp
next
  case (Cons a qs)
  have "(\<Sum>j\<leftarrow>[0..<W]. \<Sum>q\<leftarrow>filter (\<lambda>q. \<phi> q = j) (a # qs). g q)
          = (\<Sum>j\<leftarrow>[0..<W]. (if \<phi> a = j then g a else 0) + (\<Sum>q\<leftarrow>filter (\<lambda>q. \<phi> q = j) qs. g q))"
    by (intro arg_cong [where f = sum_list] map_cong refl) simp
  also have "\<dots> = (\<Sum>j\<leftarrow>[0..<W]. if \<phi> a = j then g a else 0)
                    + (\<Sum>j\<leftarrow>[0..<W]. \<Sum>q\<leftarrow>filter (\<lambda>q. \<phi> q = j) qs. g q)"
    by (rule sum_list_addf)
  also have "(\<Sum>j\<leftarrow>[0..<W]. if \<phi> a = j then g a else 0) = g a"
    using Cons.prems by (intro sum_list_delta_monoid [where h = "\<lambda>_. g a"]) simp
  also have "(\<Sum>j\<leftarrow>[0..<W]. \<Sum>q\<leftarrow>filter (\<lambda>q. \<phi> q = j) qs. g q) = (\<Sum>q\<leftarrow>qs. g q)"
    using Cons by simp
  finally show ?case by simp
qed

lemma sum_list_row:
  fixes f :: "nat list \<Rightarrow> 'a::comm_monoid_add"
  assumes "b < B" "p < P"
  shows "(\<Sum>i\<leftarrow>filter (\<lambda>i. i ! 0 = b \<and> i ! 1 = p) (indices [B, P, T]). f i) = (\<Sum>t\<leftarrow>[0..<T]. f [b, p, t])"
proof -
  let ?is = "filter (\<lambda>i. i ! 0 = b \<and> i ! 1 = p) (indices [B, P, T])"
  have d: "distinct ?is" by (simp add: distinct_indices)
  have set: "set ?is = (\<lambda>t. [b, p, t]) ` {0..<T}"
  proof (intro set_eqI iffI)
    fix i assume i: "i \<in> set ?is"
    then have "length i = 3" by (simp add: indices_iff)
    then obtain x y z where xyz: "i = [x, y, z]"
      by (cases i; cases "tl i"; cases "tl (tl i)") auto
    from i have "x = b" "y = p" "[x, y, z] \<in> set (indices [B, P, T])"
      by (auto simp: xyz)
    moreover from this have "z < T"
      using indices_iff [of "[x, y, z]" "[B, P, T]"] by (auto dest: spec [of _ 2])
    ultimately show "i \<in> (\<lambda>t. [b, p, t]) ` {0..<T}" by (auto simp: xyz)
  next
    fix i assume "i \<in> (\<lambda>t. [b, p, t]) ` {0..<T}"
    then show "i \<in> set ?is"
      using assms by (auto simp: indices_iff less_Suc_eq numeral_3_eq_3)
  qed
  have "(\<Sum>i\<leftarrow>?is. f i) = sum f (set ?is)"
    using d by (rule sum_list_distinct_conv_sum_set)
  also have "\<dots> = sum (\<lambda>t. f [b, p, t]) {0..<T}"
    unfolding set by (subst sum.reindex) (auto simp: inj_on_def)
  also have "\<dots> = (\<Sum>t\<leftarrow>[0..<T]. f [b, p, t])"
    by (simp add: sum_list_distinct_conv_sum_set)
  finally show ?thesis .
qed

lemma scatter_add_row_total:
  fixes src :: "'a::comm_monoid_add tensor"
  assumes sc: "scatter_add src idx 2 None 0 = Inr wj"
    and src: "shape src = [B, P, T]" and idx: "shape idx = [B, P, T]"
    and b: "b < B" and p: "p < P"
  shows "\<exists>W. shape wj = [B, P, W] \<and> 0 < W
           \<and> (\<forall>i\<in>set (indices [B, P, T]). 0 \<le> elem idx i \<and> elem idx i < int W)
           \<and> (\<exists>i\<in>set (indices [B, P, T]). elem idx i = int W - 1)
           \<and> (\<Sum>j\<leftarrow>[0..<W]. elem wj [b, p, j]) = (\<Sum>t\<leftarrow>[0..<T]. elem src [b, p, t])"
proof -
  let ?is = "indices [B, P, T]"
  have wd: "wrap_dim 3 2 = Inr 2" "wrap_dim (Suc (Suc (Suc 0))) 2 = Inr 2"
    by (simp_all add: wrap_dim_def)
  from sc obtain m where m: "tensor_max idx = Inr m"
    by (auto simp: scatter_add_def split: sum.splits)
  then have ne: "?is \<noteq> []"
    by (auto simp: tensor_max_def idx split: list.splits)
  have mx: "m = Max (elem idx ` set ?is)"
    using tensor_max_eq [of idx] ne m by (simp add: idx)
  from sc m obtain out0 where out0: "full [int B, int P, m + 1] (0::'a) = Inr out0"
    and inp: "scatter_add_inplace out0 2 idx src = Inr wj"
    by (auto simp: scatter_add_def src wd ScatterAdd_forward_def split: sum.splits)
  from out0 have m0: "0 \<le> m + 1" and o: "out0 = \<lparr>shape = [B, P, nat (m + 1)], elem = \<lambda>_. 0\<rparr>"
    by (auto simp: full_def split: if_splits)
  define W where "W = nat (m + 1)"
  have sh0: "shape out0 = [B, P, W]" by (simp add: o W_def)
  have wd0: "wrap_dim (length (shape out0)) 2 = Inr 2"
    by (simp add: sh0 wd)
  from inp have rng: "\<forall>i\<in>set ?is. 0 \<le> elem idx i \<and> elem idx i < int W"
    using ne by (auto simp: scatter_add_inplace_def sh0 wd idx src list_all_iff split: if_splits)
  from ne obtain i0 where i0: "i0 \<in> set ?is" by (cases ?is) auto
  with rng have Wpos: "0 < W" by fastforce
  have "m \<in> elem idx ` set ?is"
    unfolding mx using i0 by (intro Max_in) auto
  then obtain im where im: "im \<in> set ?is" "elem idx im = m" by auto
  have mW: "m = int W - 1" using Wpos by (simp add: W_def)
  have el: "elem wj j = elem out0 j
           + sum_list (map (elem src) (filter (\<lambda>i. i[2 := nat (elem idx i)] = j) (indices (shape idx))))" for j
    by (rule scatter_add_inplace_elem(2) [OF inp wd0])
  have shw: "shape wj = [B, P, W]"
    using scatter_add_inplace_elem(1) [OF inp wd0] by (simp add: sh0)
  let ?row = "filter (\<lambda>i. i ! 0 = b \<and> i ! 1 = p) ?is"
  have flt: "filter (\<lambda>i. i[2 := nat (elem idx i)] = [b, p, j]) ?is
               = filter (\<lambda>i. nat (elem idx i) = j) ?row" for j
  proof -
    have "(i[2 := nat (elem idx i)] = [b, p, j]) = ((i ! 0 = b \<and> i ! 1 = p) \<and> nat (elem idx i) = j)"
      if "i \<in> set ?is" for i
    proof -
      from that have l: "length i = 3" by (simp add: indices_iff)
      then obtain x y z where i: "i = [x, y, z]"
        by (cases i; cases "tl i"; cases "tl (tl i)") auto
      show ?thesis by (auto simp: i)
    qed
    then show ?thesis
      by (simp add: filter_filter conj_commute cong: filter_cong)
  qed
  have "(\<Sum>j\<leftarrow>[0..<W]. elem wj [b, p, j])
          = (\<Sum>j\<leftarrow>[0..<W]. \<Sum>i\<leftarrow>filter (\<lambda>i. nat (elem idx i) = j) ?row. elem src i)"
    by (intro arg_cong [where f = sum_list] map_cong refl) (simp add: el idx flt o)
  also have "\<dots> = (\<Sum>i\<leftarrow>?row. elem src i)"
    using rng by (intro sum_list_filter_partition) auto
  also have "\<dots> = (\<Sum>t\<leftarrow>[0..<T]. elem src [b, p, t])"
    using b p by (rule sum_list_row)
  finally have tot: "(\<Sum>j\<leftarrow>[0..<W]. elem wj [b, p, j]) = (\<Sum>t\<leftarrow>[0..<T]. elem src [b, p, t])" .
  from shw Wpos rng im mW tot show ?thesis by blast
qed


lemma sum_list_flat3:
  fixes f :: "nat \<Rightarrow> nat \<Rightarrow> 'a::comm_monoid_add"
  shows "(\<Sum>t\<leftarrow>[0..<F * 3]. f (t div 3) (t mod 3)) = (\<Sum>k\<leftarrow>[0..<F]. \<Sum>i\<leftarrow>[0..<3]. f k i)"
proof (induction F)
  case 0
  show ?case by simp
next
  case (Suc F)
  have "[0..<F * 3 + 3] = [0..<F * 3] @ [F * 3..<F * 3 + 3]"
    by (rule upt_add_eq_append) simp
  moreover have "[F * 3..<F * 3 + 3] = [F * 3, F * 3 + 1, F * 3 + 2]"
    by (simp add: upt_conv_Cons)
  moreover have "Suc F * 3 = F * 3 + 3" by simp
  ultimately have "[0..<Suc F * 3] = [0..<F * 3] @ [F * 3, F * 3 + 1, F * 3 + 2]"
    by (simp only:)
  moreover have "(F * 3 + 1) div 3 = F" "(F * 3 + 1) mod 3 = 1" "(F * 3 + 2) div 3 = F" "(F * 3 + 2) mod 3 = 2"
    by presburger+
  ultimately show ?case
    by (simp add: Suc upt_0_3 add.assoc del: mult_Suc)
qed

lemma gather_result:
  assumes "gather inp 3 idx = Inr r" "length (shape inp) = length s" "3 < length s" "shape idx = s"
  shows "list_all (\<lambda>i. 0 \<le> elem idx i \<and> elem idx i < int (shape inp ! 3)) (indices s)"
    and "shape r = s"
    and "elem r = (\<lambda>i. elem inp (i[3 := nat (elem idx i)]))"
proof -
  have wd: "wrap_dim (length s) 3 = Inr 3"
    using assms(3) by (simp add: wrap_dim_def)
  from assms(1) show "list_all (\<lambda>i. 0 \<le> elem idx i \<and> elem idx i < int (shape inp ! 3)) (indices s)"
    and "shape r = s" and "elem r = (\<lambda>i. elem inp (i[3 := nat (elem idx i)]))"
    by (auto simp: gather_def assms(2) assms(4) wd split: if_splits)
qed

lemma mvc_wi_shape: "shape (mvc_wi theta_i h ci si di) = shape theta_i"
  by (simp add: mvc_wi_def Let_def)

lemma mvc_face_weights_result:
  assumes fw: "mvc_face_weights check_values query vertices faces = Inr (dj, wi)"
    and q: "shape query = [B, P, 3]" and v: "shape vertices = [B, N, 3]" and f: "shape faces = [B, F, 3]"
  shows "dj = mvc_dj query vertices" and "shape wi = [B, P, F, 3]"
    and "b < B \<Longrightarrow> p < P \<Longrightarrow> k < F \<Longrightarrow> i < 3 \<Longrightarrow> 0 \<le> elem faces [b, k, i] \<and> elem faces [b, k, i] < int N"
proof -
  let ?inp = "\<lparr>shape = [B, P, F, N, 3], elem = \<lambda>i. elem (mvc_uj query vertices) [i ! 0, i ! 1, i ! 3, i ! 4]\<rparr>"
  let ?idx = "\<lparr>shape = [B, P, F, 3, 3], elem = \<lambda>i. elem faces [i ! 0, i ! 2, i ! 3]\<rparr>"
  from fw obtain ui di where ui: "gather ?inp 3 ?idx = Inr ui"
    and dj: "dj = mvc_dj query vertices"
    and wi: "wi = mvc_wi (mvc_theta_i (mvc_li ui)) (mvc_h (mvc_theta_i (mvc_li ui)))
                   (mvc_ci (mvc_theta_i (mvc_li ui)) (mvc_h (mvc_theta_i (mvc_li ui))))
                   (mvc_si ui (mvc_ci (mvc_theta_i (mvc_li ui)) (mvc_h (mvc_theta_i (mvc_li ui))))) di"
    by (auto simp: mvc_face_weights_def q v f Let_def split: sum.splits if_splits)
  show "dj = mvc_dj query vertices" by (rule dj)
  have shu: "shape ui = [B, P, F, 3, 3]"
    using gather_result(2) [OF ui, of "[B, P, F, 3, 3]"] by simp
  show "shape wi = [B, P, F, 3]"
    by (simp add: wi mvc_wi_shape mvc_theta_i_def mvc_li_def tensor_map_def Let_def shu)
  show "0 \<le> elem faces [b, k, i] \<and> elem faces [b, k, i] < int N"
    if "b < B" "p < P" "k < F" "i < 3"
  proof -
    have mem: "[b, p, k, i, 0] \<in> set (indices [B, P, F, 3, 3])"
      using that by (auto simp: indices_iff less_Suc_eq_0_disj)
    from gather_result(1) [OF ui, of "[B, P, F, 3, 3]"]
    have all: "\<forall>j\<in>set (indices [B, P, F, 3, 3]).
                 0 \<le> elem faces [j ! 0, j ! 2, j ! 3] \<and> elem faces [j ! 0, j ! 2, j ! 3] < int N"
      by (simp add: list_all_iff)
    from bspec [OF all mem] show ?thesis by simp
  qed
qed

lemma fl_sum_div:
  assumes "(\<Sum>k\<leftarrow>ks. g k) = Fin s" "c \<noteq> 0"
  shows "(\<Sum>k\<leftarrow>ks. fl_div (g k) (Fin c)) = Fin (s / c)"
  using assms(1)
proof (induction ks arbitrary: s)
  case Nil
  then show ?case by simp
next
  case (Cons a ks)
  from Cons.prems obtain x y where x: "g a = Fin x" and y: "(\<Sum>k\<leftarrow>ks. g k) = Fin y" and s: "s = x + y"
    by (cases "g a"; cases "\<Sum>k\<leftarrow>ks. g k") auto
  show ?case
    using assms(2) by (simp add: x Cons.IH [OF y] s add_divide_distrib)
qed

lemma fl_sum_const: "(\<Sum>k\<leftarrow>[0..<n]. Fin s) = Fin (real n * s)"
  by (induction n) (simp_all add: algebra_simps)

lemma fl_sum_indicator:
  "(\<Sum>k\<leftarrow>[0..<n]. if Q k then Fin 1 else 0) = Fin (real (card {k. k < n \<and> Q k}))"
proof (induction n)
  case 0
  show ?case by simp
next
  case (Suc n)
  have fin: "finite {k. k < n \<and> Q k}" by simp
  have "{k. k < Suc n \<and> Q k} = (if Q n then insert n {k. k < n \<and> Q k} else {k. k < n \<and> Q k})"
    by (auto simp: less_Suc_eq)
  then have "card {k. k < Suc n \<and> Q k} = (if Q n then Suc (card {k. k < n \<and> Q k}) else card {k. k < n \<and> Q k})"
    using fin by simp
  then show ?case
    by (simp add: Suc)
qed

lemma mvc_result:
  assumes ret: "mean_value_coordinates_3D check_values query vertices faces = Inr w"
    and q: "shape query = [B, P, 3]" and v: "shape vertices = [B, N, 3]" and f: "shape faces = [B, F, 3]"
    and b: "b < B" and p: "p < P"
    and close_def: "close = (\<lambda>n. vec_norm (vec_sub (vec3 vertices [b, n]) (vec3 query [b, p])) < 1 / 10 ^ 8)"
  obtains wi a where "mvc_face_weights check_values query vertices faces = Inr (mvc_dj query vertices, wi)"
    and "shape w = [B, P, N]"
    and "\<And>s. (\<Sum>k\<leftarrow>[0..<F]. \<Sum>i\<leftarrow>[0..<3]. elem wi [b, p, k, i]) = Fin s
                  \<Longrightarrow> \<exists>c>0. (\<Sum>n\<leftarrow>[0..<N]. a n) = Fin (real c * s)"
    and "\<And>j. j < N \<Longrightarrow> elem w [b, p, j]
                  = fl_div (if close j then Fin 1 else if list_ex close [0..<N] then 0 else a j)
                      (if (\<Sum>n\<leftarrow>[0..<N]. if close n then Fin 1 else if list_ex close [0..<N] then 0 else a n) = 0
                       then Fin 1
                       else (\<Sum>n\<leftarrow>[0..<N]. if close n then Fin 1 else if list_ex close [0..<N] then 0 else a n))"
proof -
  let ?idx = "\<lparr>shape = [B, P, F * 3], elem = \<lambda>i. elem faces [i ! 0, i ! 2 div 3, i ! 2 mod 3]\<rparr> :: int tensor"
  from ret obtain dj wi wj where fw: "mvc_face_weights check_values query vertices faces = Inr (dj, wi)"
    and sc: "scatter_add \<lparr>shape = [B, P, F * 3], elem = \<lambda>i. elem wi [i ! 0, i ! 1, i ! 2 div 3, i ! 2 mod 3]\<rparr>
               ?idx 2 None 0 = Inr wj"
    and fin: "mvc_finish dj wj = Inr w"
    by (auto simp: mean_value_coordinates_3D_def q f Let_def split: sum.splits prod.splits)
  note fwr = mvc_face_weights_result [OF fw q v f]
  have dj: "dj = mvc_dj query vertices" by (rule fwr(1))
  have shd: "shape dj = [B, P, N, 1]" by (simp add: dj mvc_dj_def q v)
  have eld: "elem dj [b, p, n, 0] = vec_norm (vec_sub (vec3 vertices [b, n]) (vec3 query [b, p]))" for n
    by (simp add: dj mvc_dj_def)
  from scatter_add_row_total [OF sc _ _ b p, of "F * 3"]
  obtain W where shw: "shape wj = [B, P, W]" and Wpos: "0 < W"
    and att: "\<exists>i\<in>set (indices [B, P, F * 3]). elem ?idx i = int W - 1"
    and tot: "(\<Sum>j\<leftarrow>[0..<W]. elem wj [b, p, j])
                = (\<Sum>t\<leftarrow>[0..<F * 3]. elem wi [b, p, t div 3, t mod 3])"
    by auto
  have WN: "W \<le> N"
  proof -
    from att obtain i where i: "i \<in> set (indices [B, P, F * 3])"
      and e: "elem faces [i ! 0, i ! 2 div 3, i ! 2 mod 3] = int W - 1" by auto
    from i have "length i = 3" by (simp add: indices_iff)
    then obtain x y z where xyz: "i = [x, y, z]"
      by (cases i; cases "tl i"; cases "tl (tl i)") auto
    from i have "x < B" "z < F * 3"
      using indices_iff [of "[x, y, z]" "[B, P, F * 3]"]
      by (auto simp: xyz dest: spec [of _ 0] spec [of _ 2])
    then have "x < B" "z div 3 < F" "z mod 3 < 3" by (auto simp: less_mult_imp_div_less)
    from fwr(3) [OF this(1) p this(2,3)] e show ?thesis by (simp add: xyz)
  qed
  note fr = mvc_finish_result [OF fin shd shw b p]
  have K: "(if N = 1 then W else N) = N"
    using WN Wpos by auto
  define a where "a = (\<lambda>n. elem wj [b, p, if W = 1 then 0 else n])"
  have tot2: "(\<Sum>j\<leftarrow>[0..<W]. elem wj [b, p, j]) = (\<Sum>k\<leftarrow>[0..<F]. \<Sum>i\<leftarrow>[0..<3]. elem wi [b, p, k, i])"
    unfolding tot by (rule sum_list_flat3)
  have total: "\<exists>c>0. (\<Sum>n\<leftarrow>[0..<N]. a n) = Fin (real c * s)"
    if s: "(\<Sum>k\<leftarrow>[0..<F]. \<Sum>i\<leftarrow>[0..<3]. elem wi [b, p, k, i]) = Fin s" for s
  proof (cases "W = 1")
    case True
    with tot2 s have "elem wj [b, p, 0] = Fin s" by simp
    then have "(\<Sum>n\<leftarrow>[0..<N]. a n) = Fin (real N * s)"
      by (simp add: a_def True fl_sum_const)
    moreover have "0 < N" using WN Wpos by simp
    ultimately show ?thesis by blast
  next
    case False
    with fr(1) Wpos WN have "N = W" by auto
    with False tot2 s have "(\<Sum>n\<leftarrow>[0..<N]. a n) = Fin (real (1::nat) * s)"
      by (simp add: a_def)
    then show ?thesis by blast
  qed
  have g: "(if elem dj [b, p, if N = 1 then 0 else n, 0] < 1 / 10 ^ 8 then Fin 1
            else if list_ex (\<lambda>n. elem dj [b, p, n, 0] < 1 / 10 ^ 8) [0..<N] then 0
            else elem wj [b, p, if W = 1 then 0 else n])
          = (if close n then Fin 1 else if list_ex close [0..<N] then 0 else a n)" if "n < N" for n
  proof -
    have "(if N = 1 then 0 else n) = n" using that by auto
    then show ?thesis by (simp add: eld close_def a_def)
  qed
  have G: "(\<Sum>n\<leftarrow>[0..<N]. if elem dj [b, p, if N = 1 then 0 else n, 0] < 1 / 10 ^ 8 then Fin 1
            else if list_ex (\<lambda>n. elem dj [b, p, n, 0] < 1 / 10 ^ 8) [0..<N] then 0
            else elem wj [b, p, if W = 1 then 0 else n])
          = (\<Sum>n\<leftarrow>[0..<N]. if close n then Fin 1 else if list_ex close [0..<N] then 0 else a n)"
    by (intro arg_cong [where f = sum_list] map_cong refl g) simp
  have el: "elem w [b, p, j]
                  = fl_div (if close j then Fin 1 else if list_ex close [0..<N] then 0 else a j)
                      (if (\<Sum>n\<leftarrow>[0..<N]. if close n then Fin 1 else if list_ex close [0..<N] then 0 else a n) = 0
                       then Fin 1
                       else (\<Sum>n\<leftarrow>[0..<N]. if close n then Fin 1 else if list_ex close [0..<N] then 0 else a n))"
    if "j < N" for j
    using fr(3) [of j] that unfolding K G g [OF that] by simp
  have shape: "shape w = [B, P, N]"
    using fr(2) unfolding K .
  show thesis
  proof (rule that [of wi a])
    show "mvc_face_weights check_values query vertices faces = Inr (mvc_dj query vertices, wi)"
      using fw dj by simp
    show "shape w = [B, P, N]" by (rule shape)
    show "\<exists>c>0. (\<Sum>n\<leftarrow>[0..<N]. a n) = Fin (real c * s)"
      if "(\<Sum>k\<leftarrow>[0..<F]. \<Sum>i\<leftarrow>[0..<3]. elem wi [b, p, k, i]) = Fin s" for s
      using that by (rule total)
    show "elem w [b, p, j]
                  = fl_div (if close j then Fin 1 else if list_ex close [0..<N] then 0 else a j)
                      (if (\<Sum>n\<leftarrow>[0..<N]. if close n then Fin 1 else if list_ex close [0..<N] then 0 else a n) = 0
                       then Fin 1
                       else (\<Sum>n\<leftarrow>[0..<N]. if close n then Fin 1 else if list_ex close [0..<N] then 0 else a n))"
      if "j < N" for j
      using that by (rule el)
  qed
qed


lemma mvc_row_sum_general:
  assumes ret: "mean_value_coordinates_3D check_values query vertices faces = Inr w"
    and q: "shape query = [B, P, 3]" and v: "shape vertices = [B, N, 3]" and f: "shape faces = [B, F, 3]"
    and b: "b < B" and p: "p < P"
    and far: "\<forall>n<N. \<not> vec_norm (vec_sub (vec3 vertices [b, n]) (vec3 query [b, p])) < 1 / 10 ^ 8"
  shows "\<exists>wi. mvc_face_weights check_values query vertices faces = Inr (mvc_dj query vertices, wi)
           \<and> shape w = [B, P, N]
           \<and> (\<forall>s. (\<Sum>k\<leftarrow>[0..<F]. \<Sum>i\<leftarrow>[0..<3]. elem wi [b, p, k, i]) = Fin s \<and> s \<noteq> 0
                  \<longrightarrow> (\<Sum>j\<leftarrow>[0..<N]. elem w [b, p, j]) = Fin 1)
           \<and> ((\<Sum>k\<leftarrow>[0..<F]. \<Sum>i\<leftarrow>[0..<3]. elem wi [b, p, k, i]) = Fin 0
                  \<longrightarrow> (\<Sum>j\<leftarrow>[0..<N]. elem w [b, p, j]) = Fin 0)"
proof -
  define close where "close = (\<lambda>n. vec_norm (vec_sub (vec3 vertices [b, n]) (vec3 query [b, p])) < 1 / 10 ^ 8)"
  obtain wi a where fw: "mvc_face_weights check_values query vertices faces = Inr (mvc_dj query vertices, wi)"
    and sh: "shape w = [B, P, N]"
    and tot: "\<And>s. (\<Sum>k\<leftarrow>[0..<F]. \<Sum>i\<leftarrow>[0..<3]. elem wi [b, p, k, i]) = Fin s
                  \<Longrightarrow> \<exists>c>0. (\<Sum>n\<leftarrow>[0..<N]. a n) = Fin (real c * s)"
    and el: "\<And>j. j < N \<Longrightarrow> elem w [b, p, j]
                  = fl_div (if close j then Fin 1 else if list_ex close [0..<N] then 0 else a j)
                      (if (\<Sum>n\<leftarrow>[0..<N]. if close n then Fin 1 else if list_ex close [0..<N] then 0 else a n) = 0
                       then Fin 1
                       else (\<Sum>n\<leftarrow>[0..<N]. if close n then Fin 1 else if list_ex close [0..<N] then 0 else a n))"
    by (rule mvc_result [OF ret q v f b p close_def]) (rule that, assumption+)
  have nc: "\<not> close n" if "n < N" for n
    using far that by (simp add: close_def)
  then have no: "\<not> list_ex close [0..<N]"
    by (simp add: list_ex_iff)
  have G: "(\<Sum>n\<leftarrow>[0..<N]. if close n then Fin 1 else if list_ex close [0..<N] then 0 else a n)
             = (\<Sum>n\<leftarrow>[0..<N]. a n)"
    by (intro arg_cong [where f = sum_list] map_cong refl) (simp add: nc no)
  have row: "(\<Sum>j\<leftarrow>[0..<N]. elem w [b, p, j])
               = (\<Sum>j\<leftarrow>[0..<N]. fl_div (a j) (if (\<Sum>n\<leftarrow>[0..<N]. a n) = 0 then Fin 1 else (\<Sum>n\<leftarrow>[0..<N]. a n)))"
    by (intro arg_cong [where f = sum_list] map_cong refl) (simp add: el G nc no del: fl_zero)
  have one: "(\<Sum>j\<leftarrow>[0..<N]. elem w [b, p, j]) = Fin 1"
    if s: "(\<Sum>k\<leftarrow>[0..<F]. \<Sum>i\<leftarrow>[0..<3]. elem wi [b, p, k, i]) = Fin s" "s \<noteq> 0" for s
  proof -
    from tot [OF s(1)] obtain c :: nat where c: "0 < c" "(\<Sum>n\<leftarrow>[0..<N]. a n) = Fin (real c * s)"
      by blast
    have nz: "real c * s \<noteq> 0" using c(1) s(2) by simp
    show ?thesis
      unfolding row c(2) using fl_sum_div [OF c(2) nz] nz by simp
  qed
  have zero: "(\<Sum>j\<leftarrow>[0..<N]. elem w [b, p, j]) = Fin 0"
    if s: "(\<Sum>k\<leftarrow>[0..<F]. \<Sum>i\<leftarrow>[0..<3]. elem wi [b, p, k, i]) = Fin 0"
  proof -
    from tot [OF s] have c: "(\<Sum>n\<leftarrow>[0..<N]. a n) = Fin 0"
      by auto
    show ?thesis
      unfolding row c using fl_sum_div [OF c, of 1] by simp
  qed
  from fw sh one zero show ?thesis by blast
qed

lemma mvc_vertex_general:
  assumes ret: "mean_value_coordinates_3D check_values query vertices faces = Inr w"
    and q: "shape query = [B, P, 3]" and v: "shape vertices = [B, N, 3]" and f: "shape faces = [B, F, 3]"
    and b: "b < B" and p: "p < P" and j: "j < N"
    and cl: "vec_norm (vec_sub (vec3 vertices [b, j]) (vec3 query [b, p])) < 1 / 10 ^ 8"
  shows "shape w = [B, P, N]
         \<and> (\<forall>n<N. elem w [b, p, n]
               = (if vec_norm (vec_sub (vec3 vertices [b, n]) (vec3 query [b, p])) < 1 / 10 ^ 8
                  then Fin (1 / real (card {m. m < N \<and> vec_norm (vec_sub (vec3 vertices [b, m]) (vec3 query [b, p])) < 1 / 10 ^ 8}))
                  else Fin 0))
         \<and> ((\<forall>n<N. n \<noteq> j \<longrightarrow> \<not> vec_norm (vec_sub (vec3 vertices [b, n]) (vec3 query [b, p])) < 1 / 10 ^ 8)
              \<longrightarrow> (\<forall>n<N. elem w [b, p, n] = (if n = j then Fin 1 else Fin 0)))"
proof -
  define close where "close = (\<lambda>n. vec_norm (vec_sub (vec3 vertices [b, n]) (vec3 query [b, p])) < 1 / 10 ^ 8)"
  obtain wi a where sh: "shape w = [B, P, N]"
    and el: "\<And>j. j < N \<Longrightarrow> elem w [b, p, j]
                  = fl_div (if close j then Fin 1 else if list_ex close [0..<N] then 0 else a j)
                      (if (\<Sum>n\<leftarrow>[0..<N]. if close n then Fin 1 else if list_ex close [0..<N] then 0 else a n) = 0
                       then Fin 1
                       else (\<Sum>n\<leftarrow>[0..<N]. if close n then Fin 1 else if list_ex close [0..<N] then 0 else a n))"
    by (rule mvc_result [OF ret q v f b p close_def]) (rule that, assumption+)
  have cj: "close j" using cl by (simp add: close_def)
  with j have ex: "list_ex close [0..<N]"
    by (auto simp: list_ex_iff)
  define m where "m = card {m. m < N \<and> close m}"
  have "j \<in> {m. m < N \<and> close m}" using j cj by simp
  then have mpos: "0 < m"
    unfolding m_def by (intro card_gt_0_iff [THEN iffD2]) auto
  have G: "(\<Sum>n\<leftarrow>[0..<N]. if close n then Fin 1 else if list_ex close [0..<N] then 0 else a n) = Fin (real m)"
    unfolding m_def by (simp only: ex if_True fl_sum_indicator)
  have eln: "elem w [b, p, n] = (if close n then Fin (1 / real m) else Fin 0)" if "n < N" for n
    using mpos by (simp add: el [OF that] G ex)
  have uniq: "\<forall>n<N. elem w [b, p, n] = (if n = j then Fin 1 else Fin 0)"
    if u: "\<forall>n<N. n \<noteq> j \<longrightarrow> \<not> close n"
  proof -
    have "{m. m < N \<and> close m} = {j}"
      using u j cj by auto
    then have "m = 1" by (simp add: m_def)
    with u cj show ?thesis by (auto simp: eln)
  qed
  from sh eln uniq show ?thesis
    unfolding m_def close_def by blast
qed

lemma check_finite_Fin: "check_finite (tensor_map Fin t)"
  by (simp add: check_finite_def tensor_map_def list_all_iff)

lemma gather_ok:
  assumes "length (shape inp) = length (shape idx)" "3 < length (shape idx)"
    and "\<forall>k<length (shape idx). k \<noteq> 3 \<longrightarrow> shape idx ! k \<le> shape inp ! k"
    and "\<forall>i\<in>set (indices (shape idx)). 0 \<le> elem idx i \<and> elem idx i < int (shape inp ! 3)"
  shows "gather inp 3 idx = Inr \<lparr>shape = shape idx, elem = \<lambda>i. elem inp (i[3 := nat (elem idx i)])\<rparr>"
proof -
  have wd: "wrap_dim (length (shape idx)) 3 = Inr 3"
    using assms(2) by (simp add: wrap_dim_def)
  have "list_all (\<lambda>k. k = 3 \<or> shape idx ! k \<le> shape inp ! k) [0..<length (shape idx)]"
    using assms(3) by (auto simp: list_all_iff)
  moreover have "list_all (\<lambda>i. 0 \<le> elem idx i \<and> elem idx i < int (shape inp ! 3)) (indices (shape idx))"
    using assms(4) by (simp add: list_all_iff)
  ultimately show ?thesis
    by (simp add: gather_def assms(1) wd)
qed

lemma indices5_nth:
  assumes "i \<in> set (indices [a, b, c, d, e])"
  shows "i ! 0 < a" "i ! 1 < b" "i ! 2 < c" "i ! 3 < d" "i ! 4 < e"
proof -
  from assms have *: "\<forall>k<5. i ! k < [a, b, c, d, e] ! k"
    by (simp add: indices_iff)
  from * [THEN spec, of 0] show "i ! 0 < a" by simp
  from * [THEN spec, of 1] show "i ! 1 < b" by simp
  from * [THEN spec, of 2] show "i ! 2 < c" by simp
  from * [THEN spec, of 3] show "i ! 3 < d" by simp
  from * [THEN spec, of 4] show "i ! 4 < e" by simp
qed

lemma indices4_nth:
  assumes "i \<in> set (indices [a, b, c, d])"
  shows "i ! 0 < a" "i ! 1 < b" "i ! 2 < c" "i ! 3 < d"
proof -
  from assms have *: "\<forall>k<4. i ! k < [a, b, c, d] ! k"
    by (simp add: indices_iff)
  from * [THEN spec, of 0] show "i ! 0 < a" by simp
  from * [THEN spec, of 1] show "i ! 1 < b" by simp
  from * [THEN spec, of 2] show "i ! 2 < c" by simp
  from * [THEN spec, of 3] show "i ! 3 < d" by simp
qed

lemma mvc_face_weights_ok:
  assumes q: "shape query = [B, P, 3]" and v: "shape vertices = [B, N, 3]" and f: "shape faces = [B, F, 3]"
    and rng: "\<And>b k i. b < B \<Longrightarrow> k < F \<Longrightarrow> i < 3 \<Longrightarrow> 0 \<le> elem faces [b, k, i] \<and> elem faces [b, k, i] < int N"
  defines "ui \<equiv> mvc_ui query vertices faces"
  defines "theta_i \<equiv> mvc_theta_i (mvc_li ui)"
  defines "h \<equiv> mvc_h theta_i"
  defines "ci \<equiv> mvc_ci theta_i h"
  defines "si \<equiv> mvc_si ui ci"
  assumes fin: "check_finite si"
  shows "mvc_face_weights check_finite query vertices faces
           = Inr (mvc_dj query vertices, mvc_wi theta_i h ci si (mvc_di query vertices faces))"
proof -
  let ?inp = "\<lparr>shape = [B, P, F, N, 3], elem = \<lambda>i. elem (mvc_uj query vertices) [i ! 0, i ! 1, i ! 3, i ! 4]\<rparr>"
  let ?idx = "\<lparr>shape = [B, P, F, 3, 3], elem = \<lambda>i. elem faces [i ! 0, i ! 2, i ! 3]\<rparr> :: int tensor"
  have g1: "gather ?inp 3 ?idx = Inr ui"
  proof -
    have "gather ?inp 3 ?idx = Inr \<lparr>shape = shape ?idx, elem = \<lambda>i. elem ?inp (i[3 := nat (elem ?idx i)])\<rparr>"
    proof (rule gather_ok)
      show "\<forall>i\<in>set (indices (shape ?idx)). 0 \<le> elem ?idx i \<and> elem ?idx i < int (shape ?inp ! 3)"
        using rng by (auto dest: indices5_nth)
    qed (auto simp: less_Suc_eq_0_disj)
    then show ?thesis
      by (simp add: ui_def mvc_ui_def q f)
  qed
  let ?inp2 = "\<lparr>shape = [B, P, F, N], elem = \<lambda>i. elem (mvc_dj query vertices) [i ! 0, i ! 1, i ! 3, 0]\<rparr>"
  let ?idx2 = "\<lparr>shape = [B, P, F, 3], elem = \<lambda>i. elem faces [i ! 0, i ! 2, i ! 3]\<rparr> :: int tensor"
  have g2: "gather ?inp2 3 ?idx2 = Inr (mvc_di query vertices faces)"
  proof -
    have "gather ?inp2 3 ?idx2 = Inr \<lparr>shape = shape ?idx2, elem = \<lambda>i. elem ?inp2 (i[3 := nat (elem ?idx2 i)])\<rparr>"
    proof (rule gather_ok)
      show "\<forall>i\<in>set (indices (shape ?idx2)). 0 \<le> elem ?idx2 i \<and> elem ?idx2 i < int (shape ?inp2 ! 3)"
        using rng by (auto dest: indices4_nth)
    qed (auto simp: less_Suc_eq_0_disj)
    then show ?thesis
      by (simp add: mvc_di_def q f)
  qed
  show ?thesis
    using fin g1 g2
    by (simp add: mvc_face_weights_def q v f Let_def check_finite_Fin
        theta_i_def [symmetric] h_def [symmetric] ci_def [symmetric] si_def [symmetric])
qed

lemma mvc_ok:
  assumes fw: "mvc_face_weights check_values query vertices faces = Inr (dj, wi)"
    and q: "shape query = [B, P, 3]" and v: "shape vertices = [B, N, 3]" and f: "shape faces = [B, F, 3]"
    and pos: "0 < P"
    and top: "b < B" "k < F" "i < 3" "elem faces [b, k, i] = int N - 1"
  shows "\<exists>w. mean_value_coordinates_3D check_values query vertices faces = Inr w"
proof -
  note fwr = mvc_face_weights_result [OF fw q v f]
  let ?src = "\<lparr>shape = [B, P, F * 3], elem = \<lambda>i. elem wi [i ! 0, i ! 1, i ! 2 div 3, i ! 2 mod 3]\<rparr>"
  let ?idx = "\<lparr>shape = [B, P, F * 3], elem = \<lambda>i. elem faces [i ! 0, i ! 2 div 3, i ! 2 mod 3]\<rparr> :: int tensor"
  let ?is = "indices [B, P, F * 3]"
  have mem: "[b, 0, k * 3 + i] \<in> set ?is"
    using top(1-3) pos by (auto simp: indices_iff less_Suc_eq_0_disj)
  have inr: "0 \<le> elem ?idx j \<and> elem ?idx j < int N" if "j \<in> set ?is" for j
  proof -
    from that have "length j = 3" by (simp add: indices_iff)
    then obtain x y z where xyz: "j = [x, y, z]"
      by (cases j; cases "tl j"; cases "tl (tl j)") auto
    from that have "x < B" "z < F * 3"
      using indices_iff [of "[x, y, z]" "[B, P, F * 3]"]
      by (auto simp: xyz dest: spec [of _ 0] spec [of _ 2])
    then have "x < B" "z div 3 < F" "z mod 3 < 3" by (auto simp: less_mult_imp_div_less)
    from fwr(3) [OF this(1) pos this(2,3)] show ?thesis by (simp add: xyz)
  qed
  have "(k * 3 + i) div 3 = k" "(k * 3 + i) mod 3 = i"
    using top(3) by auto
  then have at: "elem ?idx [b, 0, k * 3 + i] = int N - 1"
    using top(4) by simp
  have mx: "Max (elem ?idx ` set ?is) = int N - 1"
  proof (rule Max_eqI)
    show "finite (elem ?idx ` set ?is)" by simp
    show "y \<le> int N - 1" if "y \<in> elem ?idx ` set ?is" for y
      using that inr by fastforce
    show "int N - 1 \<in> elem ?idx ` set ?is"
      using mem at by (metis (no_types, lifting) image_eqI)
  qed
  have Npos: "0 < N" using inr [OF mem] by simp
  have "\<exists>out. scatter_add ?src ?idx (int 2) None 0 = Inr out
           \<and> shape out = (shape ?src)[2 := nat (Max (elem ?idx ` set (indices (shape ?idx))) + 1)]
           \<and> (\<forall>j. elem out j = 0 + sum_list (map (elem ?src)
                  (filter (\<lambda>i. i[2 := nat (elem ?idx i)] = j) (indices (shape ?idx)))))
           \<and> (\<forall>j. j \<notin> (\<lambda>i. i[2 := nat (elem ?idx i)]) ` set (indices (shape ?idx)) \<longrightarrow> elem out j = 0)"
  proof (rule scatter_add_default_general)
    show "indices (shape ?idx) \<noteq> []" using mem by auto
    show "list_all (\<lambda>i. 0 \<le> elem ?idx i) (indices (shape ?idx))"
      using inr by (simp add: list_all_iff)
  qed (simp_all add: list_all_iff)
  then obtain wj where sc: "scatter_add ?src ?idx 2 None 0 = Inr wj"
    and shw: "shape wj = [B, P, N]"
    using Npos mx by auto
  have shd: "shape dj = [B, P, N, 1]"
    by (simp add: fwr(1) mvc_dj_def q v)
  have "\<exists>w. mvc_finish dj wj = Inr w"
    by (simp add: mvc_finish_def broadcast2_def align_def Let_def shd shw tensor_map_def)
  then show ?thesis
    using fw sc by (simp add: mean_value_coordinates_3D_def q f Let_def)
qed

lemma sin_2arcsin_nonzero:
  assumes "0 < x" "x < 1"
  shows "sin (2 * arcsin x) \<noteq> 0"
proof -
  have "x\<^sup>2 < 1" using assms by (simp add: power_less_one_iff abs_square_less_1)
  then have "0 < sqrt (1 - x\<^sup>2)" by simp
  moreover have "sin (2 * arcsin x) = 2 * x * sqrt (1 - x\<^sup>2)"
    using assms by (simp add: sin_double cos_arcsin)
  ultimately show ?thesis using assms by simp
qed

lemma mvc_ci_finite:
  assumes "sin (elem (take_idx theta_i [1, 2, 0]) i) \<noteq> 0" "sin (elem (take_idx theta_i [2, 0, 1]) i) \<noteq> 0"
  shows "\<exists>c. elem (mvc_ci theta_i h) i = Fin c \<and> \<bar>c\<bar> < 1"
proof -
  define y where "y = 2 * sin (elem h (i[3 := 0])) * sin (elem h (i[3 := 0]) - elem theta_i i)
                        / (sin (elem (take_idx theta_i [1, 2, 0]) i) * sin (elem (take_idx theta_i [2, 0, 1]) i)) - 1"
  have "elem (mvc_ci theta_i h) i = Fin (clamp_lo 1 (1 / 10 ^ 5) (clamp_hi 1 (1 / 10 ^ 5) y))"
    using assms by (simp add: mvc_ci_def Let_def tensor_map_def y_def)
  moreover have "\<bar>clamp_lo 1 (1 / 10 ^ 5) (clamp_hi 1 (1 / 10 ^ 5) y)\<bar> < 1"
    by (auto simp: clamp_lo_def clamp_hi_def)
  ultimately show ?thesis by blast
qed

lemma mvc_si_finite:
  assumes "elem ci i = Fin c" "\<bar>c\<bar> < 1"
  shows "elem (mvc_si ui ci) i
           = Fin (sgn (det3 (map (\<lambda>k. vec3 ui [i ! 0, i ! 1, i ! 2, k]) [0..<3])) * sqrt (1 - c * c))"
proof -
  have "c\<^sup>2 < 1" using assms(2) by (simp add: abs_square_less_1)
  then have "\<not> 1 - c * c < 0" by (simp add: power2_eq_square)
  then show ?thesis
    by (simp add: mvc_si_def assms(1))
qed

lemma sqrt2_bounds: "\<not> 2 \<le> sqrt 2" "\<not> sqrt 2 \<le> - 2" "0 < sqrt 2 / 2" "sqrt 2 / 2 < 1"
proof -
  have "sqrt 2 < 2" by (rule real_less_lsqrt) simp_all
  then show "\<not> 2 \<le> sqrt 2" and "sqrt 2 / 2 < 1" by simp_all
  have "0 < sqrt 2" by simp
  then show "\<not> sqrt 2 \<le> - 2" by linarith
  show "0 < sqrt 2 / 2" by simp
qed


lemma length_normalize_vec [simp]: "length (normalize_vec u) = length u"
  by (simp add: normalize_vec_def)

lemma length_vec_sub [simp]: "length (vec_sub u v) = 3"
  by (simp add: vec_sub_def)

lemma map_nth_3: "length u = 3 \<Longrightarrow> map (\<lambda>c. u ! c) [0..<3] = u"
  by (rule nth_equalityI) simp_all

lemma vec3_record: "vec3 \<lparr>shape = s, elem = e\<rparr> i = map (\<lambda>c. e (i @ [c])) [0..<3]"
  by (simp add: vec3_def)

lemma vec3_mvc_ui:
  "vec3 (mvc_ui query vertices faces) [b, p, k, i]
     = normalize_vec (vec_sub (vec3 vertices [b, nat (elem faces [b, k, i])]) (vec3 query [b, p]))"
proof -
  have "vec3 (mvc_ui query vertices faces) [b, p, k, i]
          = map (\<lambda>c. normalize_vec (vec_sub (vec3 vertices [b, nat (elem faces [b, k, i])]) (vec3 query [b, p])) ! c) [0..<3]"
    by (simp add: mvc_ui_def mvc_uj_def vec3_record)
  then show ?thesis by (simp add: map_nth_3)
qed

lemma vec3_take_idx: "vec3 (take_idx t perm) [b, p, k, i] = vec3 t [b, p, k, perm ! i]"
  by (simp add: vec3_def take_idx_def)

lemma elem_take_idx: "elem (take_idx t perm) [b, p, k, i] = elem t [b, p, k, perm ! i]"
  by (simp add: take_idx_def)

lemma mvc_li_elem:
  "elem (mvc_li ui) [b, p, k, i]
     = clamp_lo 2 (2 / 10 ^ 5) (clamp_hi 2 (2 / 10 ^ 5)
         (vec_norm (vec_sub (vec3 ui [b, p, k, [1, 2, 0] ! i]) (vec3 ui [b, p, k, [2, 0, 1] ! i]))))"
  by (simp add: mvc_li_def Let_def tensor_map_def vec3_take_idx)

lemma mvc_theta_i_elem: "elem (mvc_theta_i li) i = 2 * arcsin (elem li i / 2)"
  by (simp add: mvc_theta_i_def tensor_map_def)

lemma mvc_h_elem:
  assumes "shape theta_i ! 3 = 3"
  shows "elem (mvc_h theta_i) [b, p, k, 0]
           = (elem theta_i [b, p, k, 0] + elem theta_i [b, p, k, 1] + elem theta_i [b, p, k, 2]) / 2"
  by (simp add: mvc_h_def tensor_map_def sum_keepdim_def assms upt_0_3)

lemma li_range:
  assumes "0 < r"
  shows "0 < clamp_lo 2 (2 / 10 ^ 5) (clamp_hi 2 (2 / 10 ^ 5) r) / 2"
    and "clamp_lo 2 (2 / 10 ^ 5) (clamp_hi 2 (2 / 10 ^ 5) r) / 2 < 1"
    and "r \<le> sqrt 2 \<Longrightarrow> clamp_lo 2 (2 / 10 ^ 5) (clamp_hi 2 (2 / 10 ^ 5) r) = r"
  using assms sqrt2_bounds(1) by (auto simp: clamp_lo_def clamp_hi_def)

lemma face_si_finite:
  assumes pos: "\<And>i. i < 3 \<Longrightarrow>
      0 < vec_norm (vec_sub (vec3 ui [b, p, k, [1, 2, 0] ! i]) (vec3 ui [b, p, k, [2, 0, 1] ! i]))"
    and i: "i < 3"
  defines "theta_i \<equiv> mvc_theta_i (mvc_li ui)"
  shows "\<exists>c. elem (mvc_si ui (mvc_ci theta_i (mvc_h theta_i))) [b, p, k, i]
               = Fin (sgn (det3 (map (\<lambda>m. vec3 ui [b, p, k, m]) [0..<3])) * sqrt (1 - c * c))"
proof -
  have nz: "sin (elem theta_i [b, p, k, m]) \<noteq> 0" if "m < 3" for m
    unfolding theta_i_def mvc_theta_i_elem mvc_li_elem
    by (intro sin_2arcsin_nonzero li_range pos that)
  have p1: "[1, 2, 0] ! i < (3::nat)" and p2: "[2, 0, 1] ! i < (3::nat)"
    using i by (auto simp: less_Suc_eq numeral_3_eq_3)
  from mvc_ci_finite [of theta_i "[b, p, k, i]" "mvc_h theta_i"]
  obtain c where c: "elem (mvc_ci theta_i (mvc_h theta_i)) [b, p, k, i] = Fin c" "\<bar>c\<bar> < 1"
    using nz [OF p1] nz [OF p2] by (auto simp: elem_take_idx)
  from mvc_si_finite [OF c, of ui] show ?thesis by auto
qed

lemma mvc_returns:
  assumes q: "shape query = [B, P, 3]" and v: "shape vertices = [B, N, 3]" and f: "shape faces = [B, F, 3]"
    and rng: "\<And>b k i. b < B \<Longrightarrow> k < F \<Longrightarrow> i < 3 \<Longrightarrow> 0 \<le> elem faces [b, k, i] \<and> elem faces [b, k, i] < int N"
    and P: "0 < P"
    and top: "b0 < B" "k0 < F" "i0 < 3" "elem faces [b0, k0, i0] = int N - 1"
    and pos: "\<And>b p k i. b < B \<Longrightarrow> p < P \<Longrightarrow> k < F \<Longrightarrow> i < 3 \<Longrightarrow>
        0 < vec_norm (vec_sub
              (normalize_vec (vec_sub (vec3 vertices [b, nat (elem faces [b, k, [1, 2, 0] ! i])]) (vec3 query [b, p])))
              (normalize_vec (vec_sub (vec3 vertices [b, nat (elem faces [b, k, [2, 0, 1] ! i])]) (vec3 query [b, p]))))"
  defines "ui \<equiv> mvc_ui query vertices faces"
  defines "theta_i \<equiv> mvc_theta_i (mvc_li ui)"
  defines "h \<equiv> mvc_h theta_i"
  defines "ci \<equiv> mvc_ci theta_i h"
  defines "si \<equiv> mvc_si ui ci"
  shows "mvc_face_weights check_finite query vertices faces
           = Inr (mvc_dj query vertices, mvc_wi theta_i h ci si (mvc_di query vertices faces))"
    and "\<exists>w. mean_value_coordinates_3D check_finite query vertices faces = Inr w"
proof -
  have sh: "shape si = [B, P, F, 3]"
    by (simp add: si_def mvc_si_def ci_def mvc_ci_def Let_def tensor_map_def theta_i_def mvc_theta_i_def
        mvc_li_def ui_def mvc_ui_def q f)
  have fin: "check_finite si"
    unfolding check_finite_def sh list_all_iff
  proof
    fix i assume i: "i \<in> set (indices [B, P, F, 3])"
    then have "length i = 4" by (simp add: indices_iff)
    then obtain x y z m where xyz: "i = [x, y, z, m]"
      by (cases i; cases "tl i"; cases "tl (tl i)"; cases "tl (tl (tl i))") auto
    from indices4_nth [OF i] have b: "x < B" "y < P" "z < F" "m < 3"
      by (simp_all add: xyz)
    have "\<exists>c. elem (mvc_si ui (mvc_ci theta_i (mvc_h theta_i))) [x, y, z, m]
               = Fin (sgn (det3 (map (\<lambda>m. vec3 ui [x, y, z, m]) [0..<3])) * sqrt (1 - c * c))"
      unfolding theta_i_def
    proof (rule face_si_finite)
      show "m < 3" by (rule b)
      show "0 < vec_norm (vec_sub (vec3 ui [x, y, z, [1, 2, 0] ! j]) (vec3 ui [x, y, z, [2, 0, 1] ! j]))"
        if "j < 3" for j
        unfolding ui_def vec3_mvc_ui by (rule pos [OF b(1-3) that])
    qed
    then show "elem si i \<noteq> NaN"
      by (auto simp: si_def ci_def h_def xyz)
  qed
  show fw: "mvc_face_weights check_finite query vertices faces
           = Inr (mvc_dj query vertices, mvc_wi theta_i h ci si (mvc_di query vertices faces))"
    unfolding theta_i_def h_def ci_def si_def ui_def
    by (rule mvc_face_weights_ok [OF q v f rng])
      (use fin in \<open>simp_all add: theta_i_def h_def ci_def si_def ui_def\<close>)
  show "\<exists>w. mean_value_coordinates_3D check_finite query vertices faces = Inr w"
    by (rule mvc_ok [OF fw q v f P top])
qed

section \<open>mean_value_coordinates_3D on four small meshes\<close>

lemma arcsin_sqrt2_half: "arcsin (sqrt 2 / 2) = pi / 4"
proof -
  have "arcsin (sin (pi / 4)) = pi / 4"
    by (rule arcsin_sin) (use pi_gt_zero in \<open>simp_all\<close>)
  then show ?thesis by (simp add: sin_45)
qed

lemma sin_3pi4: "sin (3 * pi / 4) = sqrt 2 / 2"
proof -
  have "sin (3 * pi / 4) = sin (pi - pi / 4)" by simp
  also have "\<dots> = sin (pi / 4)" by (rule sin_pi_minus)
  finally show ?thesis by (simp add: sin_45)
qed

lemma not_inside: "h \<le> 3 * pi / 4 \<Longrightarrow> \<not> PI - h < 1 / 10 ^ 4"
  using pi_less_4 by (simp add: PI_def)

lemma ex_axes_units:
  "normalize_vec (vec_sub (vec3 ex_mvc_axes [0, 0]) (vec3 ex_mvc_query [0, 0])) = [1, 0, 0]"
  "normalize_vec (vec_sub (vec3 ex_mvc_axes [0, Suc 0]) (vec3 ex_mvc_query [0, 0])) = [0, 1, 0]"
  "normalize_vec (vec_sub (vec3 ex_mvc_axes [0, 2]) (vec3 ex_mvc_query [0, 0])) = [0, 0, 1]"
  by (simp_all add: normalize_vec_def vec_sub_def vec3_def vec_norm_def vec_dot_def upt_0_3
      ex_mvc_axes_def ex_mvc_query_def)

lemma ex_mvc_face_elem:
  "elem ex_mvc_face [b, k, 0] = 0" "elem ex_mvc_face [b, k, Suc 0] = 1" "elem ex_mvc_face [b, k, 2] = 2"
  by (simp_all add: ex_mvc_face_def)

lemma three_cases: "i < 3 \<Longrightarrow> i = 0 \<or> i = Suc 0 \<or> i = 2"
  by auto

lemma ex_axes_returns:
  "mvc_face_weights check_finite ex_mvc_query ex_mvc_axes ex_mvc_face
     = Inr (mvc_dj ex_mvc_query ex_mvc_axes, mvc_wi_of ex_mvc_query ex_mvc_axes ex_mvc_face)"
  "\<exists>w. mean_value_coordinates_3D check_finite ex_mvc_query ex_mvc_axes ex_mvc_face = Inr w"
proof -
  have q: "shape ex_mvc_query = [1, 1, 3]" and v: "shape ex_mvc_axes = [1, 3, 3]"
    and f: "shape ex_mvc_face = [1, 1, 3]"
    by (simp_all add: ex_mvc_query_def ex_mvc_axes_def ex_mvc_face_def)
  have rng: "0 \<le> elem ex_mvc_face [b, k, i] \<and> elem ex_mvc_face [b, k, i] < int 3" if "i < 3" for b k i
    using three_cases [OF that] by (auto simp: ex_mvc_face_elem)
  have top: "elem ex_mvc_face [0, 0, 2] = int 3 - 1"
    by (simp add: ex_mvc_face_elem)
  have pos: "0 < vec_norm (vec_sub
              (normalize_vec (vec_sub (vec3 ex_mvc_axes [b, nat (elem ex_mvc_face [b, k, [1, 2, 0] ! i])]) (vec3 ex_mvc_query [b, p])))
              (normalize_vec (vec_sub (vec3 ex_mvc_axes [b, nat (elem ex_mvc_face [b, k, [2, 0, 1] ! i])]) (vec3 ex_mvc_query [b, p]))))"
    if "b < 1" "p < 1" "i < 3" for b p k i
  proof -
    from that have b: "b = 0" "p = 0" by simp_all
    from three_cases [OF that(3)] show ?thesis
      unfolding b
      by (elim disjE)
        (simp_all add: ex_mvc_face_elem ex_axes_units, simp_all add: vec_norm_def vec_dot_def vec_sub_def upt_0_3)
  qed
  show "mvc_face_weights check_finite ex_mvc_query ex_mvc_axes ex_mvc_face
     = Inr (mvc_dj ex_mvc_query ex_mvc_axes, mvc_wi_of ex_mvc_query ex_mvc_axes ex_mvc_face)"
    unfolding mvc_wi_of_def Let_def
    by (rule mvc_returns(1) [OF q v f rng _ _ _ _ top pos]) simp_all
  show "\<exists>w. mean_value_coordinates_3D check_finite ex_mvc_query ex_mvc_axes ex_mvc_face = Inr w"
    by (rule mvc_returns(2) [OF q v f rng _ _ _ _ top pos]) simp_all
qed


lemma ex_axes_wi:
  assumes "m < 3"
  shows "elem (mvc_wi_of ex_mvc_query ex_mvc_axes ex_mvc_face) [0, 0, 0, m] = Fin (pi / 2)"
proof -
  define ui where "ui = mvc_ui ex_mvc_query ex_mvc_axes ex_mvc_face"
  define theta_i where "theta_i = mvc_theta_i (mvc_li ui)"
  define h where "h = mvc_h theta_i"
  define ci where "ci = mvc_ci theta_i h"
  define si where "si = mvc_si ui ci"
  define di where "di = mvc_di ex_mvc_query ex_mvc_axes ex_mvc_face"
  have U: "vec3 ui [0, 0, 0, 0] = [1, 0, 0]" "vec3 ui [0, 0, 0, Suc 0] = [0, 1, 0]" "vec3 ui [0, 0, 0, 2] = [0, 0, 1]"
    by (simp_all add: ui_def vec3_mvc_ui ex_mvc_face_elem ex_axes_units)
  have r: "vec_norm (vec_sub [0, 1, 0] [0, 0, 1]) = sqrt 2" "vec_norm (vec_sub [0, 0, 1] [1, 0, 0]) = sqrt 2"
    "vec_norm (vec_sub [1, 0, 0] [0, 1, 0]) = sqrt 2"
    by (simp_all add: vec_norm_def vec_dot_def vec_sub_def upt_0_3)
  have cl: "clamp_lo 2 (2 / 10 ^ 5) (clamp_hi 2 (2 / 10 ^ 5) (sqrt 2)) = sqrt 2"
    by (rule li_range(3)) simp_all
  have li: "elem (mvc_li ui) [0, 0, 0, k] = sqrt 2" if "k < 3" for k
    using three_cases [OF that] by (elim disjE) (simp_all add: mvc_li_elem U r cl [simplified])
  have th: "elem theta_i [0, 0, 0, 0] = pi / 2" "elem theta_i [0, 0, 0, Suc 0] = pi / 2"
    "elem theta_i [0, 0, 0, 2] = pi / 2"
    by (simp_all add: theta_i_def mvc_theta_i_elem li arcsin_sqrt2_half)
  have sh: "shape theta_i = [1, 1, 1, 3]"
    by (simp add: theta_i_def mvc_theta_i_def mvc_li_def Let_def tensor_map_def ui_def mvc_ui_def
        ex_mvc_query_def ex_mvc_face_def)
  have hh: "elem h [0, 0, 0, 0] = 3 * pi / 4"
    unfolding h_def by (subst mvc_h_elem) (simp_all add: sh th)
  have d: "3 * pi / 4 - pi / 2 = pi / 4" by simp
  have num: "2 * sin (3 * pi / 4) * sin (pi / 4) = 1"
    by (simp add: sin_3pi4 sin_45)
  have cc: "elem ci [0, 0, 0, 0] = Fin 0" "elem ci [0, 0, 0, Suc 0] = Fin 0" "elem ci [0, 0, 0, 2] = Fin 0"
    by (simp_all add: ci_def mvc_ci_def Let_def tensor_map_def take_idx_def hh th d num clamp_hi_def clamp_lo_def)
  have det: "det3 [[1, 0, 0], [0, 1, 0], [0, 0, 1]] = 1"
    by (simp add: det3_def)
  have ss: "elem si [0, 0, 0, 0] = Fin 1" "elem si [0, 0, 0, Suc 0] = Fin 1" "elem si [0, 0, 0, 2] = Fin 1"
    by (simp_all add: si_def mvc_si_def cc upt_0_3 U det)
  have dj: "elem (mvc_dj ex_mvc_query ex_mvc_axes) [0, 0, 0, 0] = 1"
    "elem (mvc_dj ex_mvc_query ex_mvc_axes) [0, 0, Suc 0, 0] = 1"
    "elem (mvc_dj ex_mvc_query ex_mvc_axes) [0, 0, 2, 0] = 1"
    by (simp_all add: mvc_dj_def vec_norm_def vec_dot_def vec_sub_def vec3_def upt_0_3 ex_mvc_axes_def ex_mvc_query_def)
  have dd: "elem di [0, 0, 0, 0] = 1" "elem di [0, 0, 0, Suc 0] = 1" "elem di [0, 0, 0, 2] = 1"
    by (simp_all add: di_def mvc_di_def ex_mvc_face_elem dj)
  have shs: "shape si = [1, 1, 1, 3]" and shh: "shape h = [1, 1, 1, 1]"
    by (simp_all add: si_def mvc_si_def ci_def mvc_ci_def Let_def tensor_map_def sh h_def mvc_h_def sum_keepdim_def)
  have ni: "\<not> PI - 3 * pi / 4 < 1 / 10 ^ 4"
    by (rule not_inside) simp
  have "elem (mvc_wi theta_i h ci si di) [0, 0, 0, m] = Fin (pi / 2)"
    using three_cases [OF assms]
    by (elim disjE)
      (simp_all add: mvc_wi_def Let_def take_idx_def shs shh sh upt_0_3 ss cc th dd hh ni [simplified])
  then show ?thesis
    by (simp only: theta_i_def h_def ci_def si_def di_def ui_def mvc_wi_of_def Let_def)
qed


lemma theta_le:
  assumes "0 < r" "r \<le> sqrt 2"
  shows "2 * arcsin (clamp_lo 2 (2 / 10 ^ 5) (clamp_hi 2 (2 / 10 ^ 5) r) / 2) \<le> pi / 2"
proof -
  have "arcsin (r / 2) \<le> arcsin (sqrt 2 / 2)"
    using assms sqrt2_bounds by (intro arcsin_le_arcsin) simp_all
  then show ?thesis
    by (simp add: li_range(3) [OF assms, simplified] arcsin_sqrt2_half)
qed

lemma mvc_wi_masked:
  assumes si: "shape si = [B, P, F, 3]" and h: "shape h = [B, P, F, 1]" and th: "shape theta_i = [B, P, F, 3]"
    and s0: "elem si [b, p, k, 0] = Fin 0"
    and ni: "\<And>k'. k' < F \<Longrightarrow> \<not> PI - elem h [b, p, k', 0] < 1 / 10 ^ 4"
    and k: "k < F"
  shows "elem (mvc_wi theta_i h ci si di) [b, p, k, i] = Fin 0"
proof -
  have "\<not> list_ex (\<lambda>f. PI - elem h [b, p, f, 0] < 1 / 10 ^ 4) [0..<F]"
    using ni by (simp add: list_ex_iff)
  moreover have "list_ex (\<lambda>m. fl_test (\<lambda>s. \<bar>s\<bar> \<le> 1 / 10 ^ 5) (elem si [b, p, k, m])) [0..<3]"
    by (simp add: upt_0_3 s0)
  ultimately show ?thesis
    using ni [OF k] by (simp add: mvc_wi_def Let_def si h th)
qed

lemma ex_flat_units:
  "normalize_vec (vec_sub (vec3 ex_mvc_flat [0, 0]) (vec3 ex_mvc_query [0, 0])) = [1, 0, 0]"
  "normalize_vec (vec_sub (vec3 ex_mvc_flat [0, Suc 0]) (vec3 ex_mvc_query [0, 0])) = [0, 1, 0]"
  "normalize_vec (vec_sub (vec3 ex_mvc_flat [0, 2]) (vec3 ex_mvc_query [0, 0])) = [3 / 5, 4 / 5, 0]"
  by (simp_all add: normalize_vec_def vec_sub_def vec3_def vec_norm_def vec_dot_def upt_0_3
      ex_mvc_flat_def ex_mvc_query_def)

lemma ex_flat_norms:
  "vec_norm (vec_sub [0, 1, 0] [3 / 5, 4 / 5, 0]) = sqrt (2 / 5)"
  "vec_norm (vec_sub [3 / 5, 4 / 5, 0] [1, 0, 0]) = sqrt (4 / 5)"
  "vec_norm (vec_sub [1, 0, 0] [0, 1, 0]) = sqrt 2"
  by (simp_all add: vec_norm_def vec_dot_def vec_sub_def upt_0_3)

lemma ex_flat_returns:
  "mvc_face_weights check_finite ex_mvc_query ex_mvc_flat ex_mvc_face
     = Inr (mvc_dj ex_mvc_query ex_mvc_flat, mvc_wi_of ex_mvc_query ex_mvc_flat ex_mvc_face)"
  "\<exists>w. mean_value_coordinates_3D check_finite ex_mvc_query ex_mvc_flat ex_mvc_face = Inr w"
proof -
  have q: "shape ex_mvc_query = [1, 1, 3]" and v: "shape ex_mvc_flat = [1, 3, 3]"
    and f: "shape ex_mvc_face = [1, 1, 3]"
    by (simp_all add: ex_mvc_query_def ex_mvc_flat_def ex_mvc_face_def)
  have rng: "0 \<le> elem ex_mvc_face [b, k, i] \<and> elem ex_mvc_face [b, k, i] < int 3" if "i < 3" for b k i
    using three_cases [OF that] by (auto simp: ex_mvc_face_elem)
  have top: "elem ex_mvc_face [0, 0, 2] = int 3 - 1"
    by (simp add: ex_mvc_face_elem)
  have pos: "0 < vec_norm (vec_sub
              (normalize_vec (vec_sub (vec3 ex_mvc_flat [b, nat (elem ex_mvc_face [b, k, [1, 2, 0] ! i])]) (vec3 ex_mvc_query [b, p])))
              (normalize_vec (vec_sub (vec3 ex_mvc_flat [b, nat (elem ex_mvc_face [b, k, [2, 0, 1] ! i])]) (vec3 ex_mvc_query [b, p]))))"
    if "b < 1" "p < 1" "i < 3" for b p k i
  proof -
    from that have b: "b = 0" "p = 0" by simp_all
    from three_cases [OF that(3)] show ?thesis
      unfolding b
      by (elim disjE) (simp_all add: ex_mvc_face_elem ex_flat_units ex_flat_norms)
  qed
  show "mvc_face_weights check_finite ex_mvc_query ex_mvc_flat ex_mvc_face
     = Inr (mvc_dj ex_mvc_query ex_mvc_flat, mvc_wi_of ex_mvc_query ex_mvc_flat ex_mvc_face)"
    unfolding mvc_wi_of_def Let_def
    by (rule mvc_returns(1) [OF q v f rng _ _ _ _ top pos]) simp_all
  show "\<exists>w. mean_value_coordinates_3D check_finite ex_mvc_query ex_mvc_flat ex_mvc_face = Inr w"
    by (rule mvc_returns(2) [OF q v f rng _ _ _ _ top pos]) simp_all
qed

lemma ex_flat_wi:
  "elem (mvc_wi_of ex_mvc_query ex_mvc_flat ex_mvc_face) [0, 0, 0, m] = Fin 0"
proof -
  define ui where "ui = mvc_ui ex_mvc_query ex_mvc_flat ex_mvc_face"
  define theta_i where "theta_i = mvc_theta_i (mvc_li ui)"
  define h where "h = mvc_h theta_i"
  define ci where "ci = mvc_ci theta_i h"
  define si where "si = mvc_si ui ci"
  define di where "di = mvc_di ex_mvc_query ex_mvc_flat ex_mvc_face"
  have U: "vec3 ui [0, 0, 0, 0] = [1, 0, 0]" "vec3 ui [0, 0, 0, Suc 0] = [0, 1, 0]"
    "vec3 ui [0, 0, 0, 2] = [3 / 5, 4 / 5, 0]"
    by (simp_all add: ui_def vec3_mvc_ui ex_mvc_face_elem ex_flat_units)
  have sh: "shape theta_i = [1, 1, 1, 3]"
    by (simp add: theta_i_def mvc_theta_i_def mvc_li_def Let_def tensor_map_def ui_def mvc_ui_def
        ex_mvc_query_def ex_mvc_face_def)
  have shs: "shape si = [1, 1, 1, 3]" and shh: "shape h = [1, 1, 1, 1]"
    by (simp_all add: si_def mvc_si_def ci_def mvc_ci_def Let_def tensor_map_def sh h_def mvc_h_def sum_keepdim_def)
  have th: "elem theta_i [0, 0, 0, 0] \<le> pi / 2" "elem theta_i [0, 0, 0, Suc 0] \<le> pi / 2"
    "elem theta_i [0, 0, 0, 2] \<le> pi / 2"
  proof -
    have r: "vec_norm (vec_sub (vec3 ui [0, 0, 0, [1, 2, 0] ! 0]) (vec3 ui [0, 0, 0, [2, 0, 1] ! 0])) = sqrt (2 / 5)"
      "vec_norm (vec_sub (vec3 ui [0, 0, 0, [1, 2, 0] ! Suc 0]) (vec3 ui [0, 0, 0, [2, 0, 1] ! Suc 0])) = sqrt (4 / 5)"
      "vec_norm (vec_sub (vec3 ui [0, 0, 0, [1, 2, 0] ! 2]) (vec3 ui [0, 0, 0, [2, 0, 1] ! 2])) = sqrt 2"
      by (simp_all add: U ex_flat_norms)
    show "elem theta_i [0, 0, 0, 0] \<le> pi / 2"
      unfolding theta_i_def mvc_theta_i_elem mvc_li_elem r by (rule theta_le) simp_all
    show "elem theta_i [0, 0, 0, Suc 0] \<le> pi / 2"
      unfolding theta_i_def mvc_theta_i_elem mvc_li_elem r by (rule theta_le) simp_all
    show "elem theta_i [0, 0, 0, 2] \<le> pi / 2"
      unfolding theta_i_def mvc_theta_i_elem mvc_li_elem r by (rule theta_le) simp_all
  qed
  have hh: "elem h [0, 0, 0, 0] \<le> 3 * pi / 4"
    unfolding h_def using th by (subst mvc_h_elem) (simp_all add: sh)
  have det: "det3 [[1, 0, 0], [0, 1, 0], [3 / 5, 4 / 5, 0]] = 0"
    by (simp add: det3_def)
  have "\<exists>c. elem (mvc_si ui (mvc_ci (mvc_theta_i (mvc_li ui)) (mvc_h (mvc_theta_i (mvc_li ui))))) [0, 0, 0, 0]
               = Fin (sgn (det3 (map (\<lambda>m. vec3 ui [0, 0, 0, m]) [0..<3])) * sqrt (1 - c * c))"
  proof (rule face_si_finite)
    show "0 < vec_norm (vec_sub (vec3 ui [0, 0, 0, [1, 2, 0] ! i]) (vec3 ui [0, 0, 0, [2, 0, 1] ! i]))"
      if "i < 3" for i
      using three_cases [OF that] by (elim disjE) (simp_all add: U ex_flat_norms)
  qed simp
  then have s0: "elem si [0, 0, 0, 0] = Fin 0"
    by (auto simp: si_def ci_def h_def theta_i_def upt_0_3 U det)
  have "elem (mvc_wi theta_i h ci si di) [0, 0, 0, m] = Fin 0"
  proof (rule mvc_wi_masked [OF shs shh sh s0])
    show "\<not> PI - elem h [0, 0, k', 0] < 1 / 10 ^ 4" if "k' < 1" for k'
      using that hh by (intro not_inside) simp
  qed simp
  then show ?thesis
    by (simp only: theta_i_def h_def ci_def si_def di_def ui_def mvc_wi_of_def Let_def)
qed

section \<open>mean_value_coordinates_3D: partition of unity and vertex reproduction\<close>

text \<open>
  C2 (amended). When \<^verbatim>\<open>mean_value_coordinates_3D\<close> returns, the row of a query point that has no
  vertex closer than \<open>1e-8\<close> sums to one if the face weights \<open>wi\<close> of that query point have a
  finite total that is not zero; if their total is zero, the row sums to zero.
\<close>

theorem mvc_partition_of_unity:
  assumes "mean_value_coordinates_3D check_values query vertices faces = Inr w"
    and "shape query = [B, P, 3]" and "shape vertices = [B, N, 3]" and "shape faces = [B, F, 3]"
    and "b < B" and "p < P"
    and "\<forall>n<N. \<not> vec_norm (vec_sub (vec3 vertices [b, n]) (vec3 query [b, p])) < 1 / 10 ^ 8"
  shows "\<exists>wi. mvc_face_weights check_values query vertices faces = Inr (mvc_dj query vertices, wi)
           \<and> shape w = [B, P, N]
           \<and> (\<forall>s. (\<Sum>k\<leftarrow>[0..<F]. \<Sum>i\<leftarrow>[0..<3]. elem wi [b, p, k, i]) = Fin s \<and> s \<noteq> 0
                  \<longrightarrow> (\<Sum>j\<leftarrow>[0..<N]. elem w [b, p, j]) = Fin 1)
           \<and> ((\<Sum>k\<leftarrow>[0..<F]. \<Sum>i\<leftarrow>[0..<3]. elem wi [b, p, k, i]) = Fin 0
                  \<longrightarrow> (\<Sum>j\<leftarrow>[0..<N]. elem w [b, p, j]) = Fin 0)"
  using assms by (rule mvc_row_sum_general)

lemma ex_far:
  "\<not> vec_norm (vec_sub [1, 0, 0] [0, 0, 0]) < 1 / 10 ^ 8"
  "\<not> vec_norm (vec_sub [0, 1, 0] [0, 0, 0]) < 1 / 10 ^ 8"
  "\<not> vec_norm (vec_sub [0, 0, 1] [0, 0, 0]) < 1 / 10 ^ 8"
  "\<not> vec_norm (vec_sub [3 / 5, 4 / 5, 0] [0, 0, 0]) < 1 / 10 ^ 8"
  by (simp_all add: vec_norm_def vec_dot_def vec_sub_def upt_0_3)

lemma ex_rows:
  "vec3 ex_mvc_query [0, 0] = [0, 0, 0]"
  "vec3 ex_mvc_axes [0, 0] = [1, 0, 0]" "vec3 ex_mvc_axes [0, Suc 0] = [0, 1, 0]" "vec3 ex_mvc_axes [0, 2] = [0, 0, 1]"
  "vec3 ex_mvc_flat [0, 0] = [1, 0, 0]" "vec3 ex_mvc_flat [0, Suc 0] = [0, 1, 0]"
  "vec3 ex_mvc_flat [0, 2] = [3 / 5, 4 / 5, 0]"
  by (simp_all add: vec3_def upt_0_3 ex_mvc_query_def ex_mvc_axes_def ex_mvc_flat_def)

theorem mvc_partition_of_unity_witness:
  "\<exists>w. mean_value_coordinates_3D check_finite ex_mvc_query ex_mvc_axes ex_mvc_face = Inr w
       \<and> shape w = [1, 1, 3] \<and> (\<Sum>j\<leftarrow>[0..<3]. elem w [0, 0, j]) = Fin 1"
proof -
  from ex_axes_returns(2)
  obtain w where ret: "mean_value_coordinates_3D check_finite ex_mvc_query ex_mvc_axes ex_mvc_face = Inr w"
    by blast
  have q: "shape ex_mvc_query = [1, 1, 3]" and v: "shape ex_mvc_axes = [1, 3, 3]"
    and f: "shape ex_mvc_face = [1, 1, 3]"
    by (simp_all add: ex_mvc_query_def ex_mvc_axes_def ex_mvc_face_def)
  have far: "\<forall>n<3. \<not> vec_norm (vec_sub (vec3 ex_mvc_axes [0, n]) (vec3 ex_mvc_query [0, 0])) < 1 / 10 ^ 8"
  proof (intro allI impI)
    fix n :: nat assume "n < 3"
    from three_cases [OF this]
    show "\<not> vec_norm (vec_sub (vec3 ex_mvc_axes [0, n]) (vec3 ex_mvc_query [0, 0])) < 1 / 10 ^ 8"
      by (elim disjE) (simp_all only: ex_rows ex_far not_False_eq_True)
  qed
  from mvc_partition_of_unity [OF ret q v f _ _ far]
  obtain wi where fw: "mvc_face_weights check_finite ex_mvc_query ex_mvc_axes ex_mvc_face
                         = Inr (mvc_dj ex_mvc_query ex_mvc_axes, wi)"
    and sh: "shape w = [1, 1, 3]"
    and one: "\<And>s. (\<Sum>k\<leftarrow>[0..<1]. \<Sum>i\<leftarrow>[0..<3]. elem wi [0, 0, k, i]) = Fin s \<Longrightarrow> s \<noteq> 0
                  \<Longrightarrow> (\<Sum>j\<leftarrow>[0..<3]. elem w [0, 0, j]) = Fin 1"
    by auto
  from fw have wi: "wi = mvc_wi_of ex_mvc_query ex_mvc_axes ex_mvc_face"
    by (simp add: ex_axes_returns(1))
  have "(\<Sum>k\<leftarrow>[0..<1]. \<Sum>i\<leftarrow>[0..<3]. elem wi [0, 0, k, i]) = Fin (3 * pi / 2)"
    by (simp add: wi upt_0_3 ex_axes_wi)
  moreover have "3 * pi / 2 \<noteq> 0" by simp
  ultimately have "(\<Sum>j\<leftarrow>[0..<3]. elem w [0, 0, j]) = Fin 1" by (rule one)
  with ret sh show ?thesis by blast
qed

theorem mvc_partition_of_unity_counterexample:
  "\<exists>w. mean_value_coordinates_3D check_finite ex_mvc_query ex_mvc_flat ex_mvc_face = Inr w
       \<and> list_all (\<lambda>n. 1 / 10 ^ 8 \<le> vec_norm (vec_sub (vec3 ex_mvc_flat [0, n]) (vec3 ex_mvc_query [0, 0]))) [0..<3]
       \<and> (\<Sum>j\<leftarrow>[0..<3]. elem w [0, 0, j]) = Fin 0"
proof -
  from ex_flat_returns(2)
  obtain w where ret: "mean_value_coordinates_3D check_finite ex_mvc_query ex_mvc_flat ex_mvc_face = Inr w"
    by blast
  have q: "shape ex_mvc_query = [1, 1, 3]" and v: "shape ex_mvc_flat = [1, 3, 3]"
    and f: "shape ex_mvc_face = [1, 1, 3]"
    by (simp_all add: ex_mvc_query_def ex_mvc_flat_def ex_mvc_face_def)
  have far: "\<forall>n<3. \<not> vec_norm (vec_sub (vec3 ex_mvc_flat [0, n]) (vec3 ex_mvc_query [0, 0])) < 1 / 10 ^ 8"
  proof (intro allI impI)
    fix n :: nat assume "n < 3"
    from three_cases [OF this]
    show "\<not> vec_norm (vec_sub (vec3 ex_mvc_flat [0, n]) (vec3 ex_mvc_query [0, 0])) < 1 / 10 ^ 8"
      by (elim disjE) (simp_all only: ex_rows ex_far not_False_eq_True)
  qed
  from mvc_row_sum_general [OF ret q v f _ _ far]
  obtain wi where fw: "mvc_face_weights check_finite ex_mvc_query ex_mvc_flat ex_mvc_face
                         = Inr (mvc_dj ex_mvc_query ex_mvc_flat, wi)"
    and zero: "(\<Sum>k\<leftarrow>[0..<1]. \<Sum>i\<leftarrow>[0..<3]. elem wi [0, 0, k, i]) = Fin 0
                  \<Longrightarrow> (\<Sum>j\<leftarrow>[0..<3]. elem w [0, 0, j]) = Fin 0"
    by auto
  from fw have wi: "wi = mvc_wi_of ex_mvc_query ex_mvc_flat ex_mvc_face"
    by (simp add: ex_flat_returns(1))
  have "(\<Sum>k\<leftarrow>[0..<1]. \<Sum>i\<leftarrow>[0..<3]. elem wi [0, 0, k, i]) = Fin 0"
    by (simp add: wi upt_0_3 ex_flat_wi)
  then have "(\<Sum>j\<leftarrow>[0..<3]. elem w [0, 0, j]) = Fin 0" by (rule zero)
  moreover have "list_all (\<lambda>n. 1 / 10 ^ 8 \<le> vec_norm (vec_sub (vec3 ex_mvc_flat [0, n]) (vec3 ex_mvc_query [0, 0]))) [0..<3]"
    using far by (simp add: list_all_iff not_less)
  ultimately show ?thesis using ret by blast
qed

text \<open>
  C8 (amended). When \<^verbatim>\<open>mean_value_coordinates_3D\<close> returns and the query point has a vertex closer
  than \<open>1e-8\<close>, its row is zero at every vertex that is not that close and \<open>1 / m\<close> at each of the
  \<open>m\<close> vertices that are; so the weight is one at vertex \<open>j\<close> and zero elsewhere when \<open>j\<close> is the only
  vertex that close.
\<close>

theorem mvc_vertex_reproduction:
  assumes "mean_value_coordinates_3D check_values query vertices faces = Inr w"
    and "shape query = [B, P, 3]" and "shape vertices = [B, N, 3]" and "shape faces = [B, F, 3]"
    and "b < B" and "p < P" and "j < N"
    and "vec_norm (vec_sub (vec3 vertices [b, j]) (vec3 query [b, p])) < 1 / 10 ^ 8"
  shows "shape w = [B, P, N]
         \<and> (\<forall>n<N. elem w [b, p, n]
               = (if vec_norm (vec_sub (vec3 vertices [b, n]) (vec3 query [b, p])) < 1 / 10 ^ 8
                  then Fin (1 / real (card {m. m < N \<and> vec_norm (vec_sub (vec3 vertices [b, m]) (vec3 query [b, p])) < 1 / 10 ^ 8}))
                  else Fin 0))
         \<and> ((\<forall>n<N. n \<noteq> j \<longrightarrow> \<not> vec_norm (vec_sub (vec3 vertices [b, n]) (vec3 query [b, p])) < 1 / 10 ^ 8)
              \<longrightarrow> (\<forall>n<N. elem w [b, p, n] = (if n = j then Fin 1 else Fin 0)))"
  using assms by (rule mvc_vertex_general)

lemma ex_corner_rows:
  "vec3 ex_mvc_corner [0, 0] = [0, 0, 0]" "vec3 ex_mvc_corner [0, Suc 0] = [1, 0, 0]"
  "vec3 ex_mvc_corner [0, 2] = [0, 1, 0]"
  "vec3 ex_mvc_double [0, 0] = [0, 0, 0]" "vec3 ex_mvc_double [0, Suc 0] = [1, 0, 0]"
  "vec3 ex_mvc_double [0, 2] = [0, 1, 0]" "vec3 ex_mvc_double [0, 3] = [0, 0, 0]"
  by (simp_all add: vec3_def upt_0_3 ex_mvc_corner_def ex_mvc_double_def)

lemma ex_corner_units:
  "normalize_vec (vec_sub [0, 0, 0] [0, 0, 0]) = [0, 0, 0]"
  "normalize_vec (vec_sub [1, 0, 0] [0, 0, 0]) = [1, 0, 0]"
  "normalize_vec (vec_sub [0, 1, 0] [0, 0, 0]) = [0, 1, 0]"
  by (simp_all add: normalize_vec_def vec_sub_def vec_norm_def vec_dot_def upt_0_3)

lemma ex_corner_norms:
  "vec_norm (vec_sub [1, 0, 0] [0, 1, 0]) = sqrt 2"
  "vec_norm (vec_sub [0, 1, 0] [0, 0, 0]) = 1"
  "vec_norm (vec_sub [0, 0, 0] [1, 0, 0]) = 1"
  "vec_norm (vec_sub [1, 0, 0] [0, 0, 0]) = 1"
  "vec_norm (vec_sub [0, 0, 0] [0, 0, 0]) = 0"
  by (simp_all add: vec_norm_def vec_dot_def vec_sub_def upt_0_3)

lemma ex_mvc_faces2_elem:
  "elem ex_mvc_faces2 [b, 0, 0] = 0" "elem ex_mvc_faces2 [b, 0, Suc 0] = 1" "elem ex_mvc_faces2 [b, 0, 2] = 2"
  "elem ex_mvc_faces2 [b, Suc 0, 0] = 3" "elem ex_mvc_faces2 [b, Suc 0, Suc 0] = 1"
  "elem ex_mvc_faces2 [b, Suc 0, 2] = 2"
  by (simp_all add: ex_mvc_faces2_def)

lemma ex_corner_returns:
  "\<exists>w. mean_value_coordinates_3D check_finite ex_mvc_query ex_mvc_corner ex_mvc_face = Inr w"
proof -
  have q: "shape ex_mvc_query = [1, 1, 3]" and v: "shape ex_mvc_corner = [1, 3, 3]"
    and f: "shape ex_mvc_face = [1, 1, 3]"
    by (simp_all add: ex_mvc_query_def ex_mvc_corner_def ex_mvc_face_def)
  have rng: "0 \<le> elem ex_mvc_face [b, k, i] \<and> elem ex_mvc_face [b, k, i] < int 3" if "i < 3" for b k i
    using three_cases [OF that] by (auto simp: ex_mvc_face_elem)
  have top: "elem ex_mvc_face [0, 0, 2] = int 3 - 1"
    by (simp add: ex_mvc_face_elem)
  have pos: "0 < vec_norm (vec_sub
              (normalize_vec (vec_sub (vec3 ex_mvc_corner [b, nat (elem ex_mvc_face [b, k, [1, 2, 0] ! i])]) (vec3 ex_mvc_query [b, p])))
              (normalize_vec (vec_sub (vec3 ex_mvc_corner [b, nat (elem ex_mvc_face [b, k, [2, 0, 1] ! i])]) (vec3 ex_mvc_query [b, p]))))"
    if "b < 1" "p < 1" "i < 3" for b p k i
  proof -
    from that have b: "b = 0" "p = 0" by simp_all
    from three_cases [OF that(3)] show ?thesis
      unfolding b
      by (elim disjE) (simp_all add: ex_mvc_face_elem ex_corner_rows ex_rows(1) ex_corner_units ex_corner_norms)
  qed
  show ?thesis
    by (rule mvc_returns(2) [OF q v f rng _ _ _ _ top pos]) simp_all
qed

lemma ex_double_returns:
  "\<exists>w. mean_value_coordinates_3D check_finite ex_mvc_query ex_mvc_double ex_mvc_faces2 = Inr w"
proof -
  have q: "shape ex_mvc_query = [1, 1, 3]" and v: "shape ex_mvc_double = [1, 4, 3]"
    and f: "shape ex_mvc_faces2 = [1, 2, 3]"
    by (simp_all add: ex_mvc_query_def ex_mvc_double_def ex_mvc_faces2_def)
  have two: "k = 0 \<or> k = Suc 0" if "k < 2" for k :: nat
    using that by auto
  have rng: "0 \<le> elem ex_mvc_faces2 [b, k, i] \<and> elem ex_mvc_faces2 [b, k, i] < int 4"
    if "k < 2" "i < 3" for b k i
    using two [OF that(1)] three_cases [OF that(2)] by (auto simp: ex_mvc_faces2_elem)
  have top: "elem ex_mvc_faces2 [0, Suc 0, 0] = int 4 - 1"
    by (simp add: ex_mvc_faces2_elem)
  have pos: "0 < vec_norm (vec_sub
              (normalize_vec (vec_sub (vec3 ex_mvc_double [b, nat (elem ex_mvc_faces2 [b, k, [1, 2, 0] ! i])]) (vec3 ex_mvc_query [b, p])))
              (normalize_vec (vec_sub (vec3 ex_mvc_double [b, nat (elem ex_mvc_faces2 [b, k, [2, 0, 1] ! i])]) (vec3 ex_mvc_query [b, p]))))"
    if "b < 1" "p < 1" "k < 2" "i < 3" for b p k i
  proof -
    from that have b: "b = 0" "p = 0" by simp_all
    from two [OF that(3)] three_cases [OF that(4)] show ?thesis
      unfolding b
      by (elim disjE)
        (simp_all add: ex_mvc_faces2_elem ex_corner_rows ex_rows(1) ex_corner_units ex_corner_norms
          numeral_3_eq_3 [symmetric])
  qed
  show ?thesis
    by (rule mvc_returns(2) [OF q v f rng _ _ _ _ top pos]) simp_all
qed

theorem mvc_vertex_reproduction_witness:
  "\<exists>w. mean_value_coordinates_3D check_finite ex_mvc_query ex_mvc_corner ex_mvc_face = Inr w
       \<and> vec_norm (vec_sub (vec3 ex_mvc_corner [0, 0]) (vec3 ex_mvc_query [0, 0])) < 1 / 10 ^ 8
       \<and> map (\<lambda>n. elem w [0, 0, n]) [0..<3] = [Fin 1, Fin 0, Fin 0]"
proof -
  from ex_corner_returns
  obtain w where ret: "mean_value_coordinates_3D check_finite ex_mvc_query ex_mvc_corner ex_mvc_face = Inr w"
    by blast
  have q: "shape ex_mvc_query = [1, 1, 3]" and v: "shape ex_mvc_corner = [1, 3, 3]"
    and f: "shape ex_mvc_face = [1, 1, 3]"
    by (simp_all add: ex_mvc_query_def ex_mvc_corner_def ex_mvc_face_def)
  have cl: "vec_norm (vec_sub (vec3 ex_mvc_corner [0, 0]) (vec3 ex_mvc_query [0, 0])) < 1 / 10 ^ 8"
    by (simp add: ex_corner_rows ex_rows(1) ex_corner_norms)
  have only: "\<forall>n<3. n \<noteq> 0 \<longrightarrow> \<not> vec_norm (vec_sub (vec3 ex_mvc_corner [0, n]) (vec3 ex_mvc_query [0, 0])) < 1 / 10 ^ 8"
  proof (intro allI impI)
    fix n :: nat assume "n < 3" "n \<noteq> 0"
    with three_cases [of n]
    show "\<not> vec_norm (vec_sub (vec3 ex_mvc_corner [0, n]) (vec3 ex_mvc_query [0, 0])) < 1 / 10 ^ 8"
      by (auto simp: ex_corner_rows ex_rows(1) ex_corner_norms)
  qed
  have b0: "(0::nat) < 1" "(0::nat) < 3" by simp_all
  from mvc_vertex_reproduction [OF ret q v f b0(1) b0(1) b0(2) cl] only
  have "\<forall>n<3. elem w [0, 0, n] = (if n = 0 then Fin 1 else Fin 0)"
    by blast
  then have m: "map (\<lambda>n. elem w [0, 0, n]) [0..<3] = [Fin 1, Fin 0, Fin 0]"
    by (simp add: upt_0_3)
  show ?thesis
    by (intro exI [of _ w] conjI) (rule ret cl m)+
qed

theorem mvc_vertex_reproduction_counterexample:
  "\<exists>w. mean_value_coordinates_3D check_finite ex_mvc_query ex_mvc_double ex_mvc_faces2 = Inr w
       \<and> vec_norm (vec_sub (vec3 ex_mvc_double [0, 0]) (vec3 ex_mvc_query [0, 0])) < 1 / 10 ^ 8
       \<and> map (\<lambda>n. elem w [0, 0, n]) [0..<4] = [Fin (1 / 2), Fin 0, Fin 0, Fin (1 / 2)]"
proof -
  from ex_double_returns
  obtain w where ret: "mean_value_coordinates_3D check_finite ex_mvc_query ex_mvc_double ex_mvc_faces2 = Inr w"
    by blast
  have q: "shape ex_mvc_query = [1, 1, 3]" and v: "shape ex_mvc_double = [1, 4, 3]"
    and f: "shape ex_mvc_faces2 = [1, 2, 3]"
    by (simp_all add: ex_mvc_query_def ex_mvc_double_def ex_mvc_faces2_def)
  let ?close = "\<lambda>n. vec_norm (vec_sub (vec3 ex_mvc_double [0, n]) (vec3 ex_mvc_query [0, 0])) < 1 / 10 ^ 8"
  have cl: "?close 0" "\<not> ?close (Suc 0)" "\<not> ?close 2" "?close 3"
    by (simp_all add: ex_corner_rows ex_rows(1) ex_corner_norms)
  have four: "m = 0 \<or> m = Suc 0 \<or> m = 2 \<or> m = 3" if "m < 4" for m :: nat
    using that by auto
  have "{m. m < 4 \<and> ?close m} = {0, 3}"
    using cl by (auto dest!: four)
  then have card: "card {m. m < 4 \<and> ?close m} = 2" by simp
  have b0: "(0::nat) < 1" "(0::nat) < 4" by simp_all
  from mvc_vertex_general [OF ret q v f b0(1) b0(1) b0(2) cl(1)]
  have "\<forall>n<4. elem w [0, 0, n] = (if ?close n then Fin (1 / real (card {m. m < 4 \<and> ?close m})) else Fin 0)"
    by blast
  then have el: "\<forall>n<4. elem w [0, 0, n] = (if ?close n then Fin (1 / 2) else Fin 0)"
    unfolding card by simp
  have m: "map (\<lambda>n. elem w [0, 0, n]) [0..<4] = [Fin (1 / 2), Fin 0, Fin 0, Fin (1 / 2)]"
    using el cl by (simp add: upt_0_4)
  show ?thesis
    by (intro exI [of _ w] conjI) (rule ret cl(1) m)+
qed

end
